theory Spec2Isabelle
  imports Main "HOL-Library.Multiset"
begin

section \<open>Data model (src/types/index.ts)\<close>

text \<open>
  Timestamps are the integers returned by \<^verbatim>\<open>Date.now()\<close> (epoch milliseconds); every
  operation that reads the clock takes the reading as an argument. A value that JavaScript
  may leave \<^verbatim>\<open>undefined\<close> or \<^verbatim>\<open>null\<close> is a \<open>js\<close> value; a property of an object that
  may be absent or \<^verbatim>\<open>undefined\<close> is an \<open>option\<close>, \<open>None\<close> standing for both.
\<close>

datatype 'a js = Undefined | Null | Val 'a

datatype direction = Ltr | Rtl

record User =
  user_id :: string
  avatarUrl :: "string option"
  user_createdAt :: int

record TextBox =
  tb_id :: string
  tb_content :: string
  tb_x :: int
  tb_y :: int
  tb_width :: int
  tb_height :: int
  tb_zIndex :: int

record DrawingData =
  dd_id :: string
  dd_points :: "(int \<times> int) list"
  dd_color :: string
  dd_width :: int

text \<open>
  \<^verbatim>\<open>canvasData?: any\<close> holds what the drawing widget exports: an array of paths. The
  repository never looks inside a path.
\<close>

datatype canvas_path = CanvasPath "(int \<times> int) list" string nat

text \<open>
  A note as an object of the running program. The interface declares \<^verbatim>\<open>title\<close>,
  \<^verbatim>\<open>createdBy\<close>, \<^verbatim>\<open>createdAt\<close>, \<^verbatim>\<open>textBoxes\<close> and \<^verbatim>\<open>drawings\<close> mandatory, but the
  object that \<^verbatim>\<open>saveCurrentNote\<close> builds takes them from the update, which may carry them
  as \<^verbatim>\<open>undefined\<close>: they are options here. \<^verbatim>\<open>lastModifiedBy\<close> and \<^verbatim>\<open>lastModifiedAt\<close> are
  written after the spread by every object literal of the repository that is stored, so they
  are always a string and a number.
\<close>

record Note =
  note_id :: "nat option"
  title :: "string option"
  createdBy :: "string option"
  createdAt :: "int option"
  lastModifiedBy :: string
  lastModifiedAt :: int
  textBoxes :: "TextBox list option"
  drawings :: "DrawingData list option"
  canvasData :: "canvas_path list option"
  textContent :: "string option"
  textDirection :: "direction option"

record Stats =
  stats_id :: string
  uniqueUsers :: nat

text \<open>
  \<^verbatim>\<open>Partial<Note>\<close>: every property may be absent (\<open>None\<close>), present with the value
  \<^verbatim>\<open>undefined\<close> (\<open>Some None\<close>), or present with a value (\<open>Some (Some v)\<close>).
\<close>

record partial_note =
  p_id :: "nat option option"
  p_title :: "string option option"
  p_createdBy :: "string option option"
  p_createdAt :: "int option option"
  p_lastModifiedBy :: "string option option"
  p_lastModifiedAt :: "int option option"
  p_textBoxes :: "TextBox list option option"
  p_drawings :: "DrawingData list option option"
  p_canvasData :: "canvas_path list option option"
  p_textContent :: "string option option"
  p_textDirection :: "direction option option"

definition no_update :: partial_note where
  "no_update = \<lparr> p_id = None, p_title = None, p_createdBy = None, p_createdAt = None,
     p_lastModifiedBy = None, p_lastModifiedAt = None, p_textBoxes = None, p_drawings = None,
     p_canvasData = None, p_textContent = None, p_textDirection = None \<rparr>"


definition override :: "'a option \<Rightarrow> 'a \<Rightarrow> 'a" where
  "override new old = (case new of None \<Rightarrow> old | Some v \<Rightarrow> v)"

text \<open>
  The object literal of \<^verbatim>\<open>saveCurrentNote\<close>,
  \<^verbatim>\<open>{ ...currentNote, ...updatedNote, lastModifiedBy: currentUserId, lastModifiedAt: Date.now() }\<close>:
  each property present in the update replaces the one of the current note, also when its
  value is \<^verbatim>\<open>undefined\<close>; the two stamps are written last, over whatever the update carries
  for them.
\<close>

definition noteToSave :: "Note \<Rightarrow> partial_note \<Rightarrow> string \<Rightarrow> int \<Rightarrow> Note" where
  "noteToSave cur upd uid now = \<lparr> note_id = override (p_id upd) (note_id cur),
     title = override (p_title upd) (title cur),
     createdBy = override (p_createdBy upd) (createdBy cur),
     createdAt = override (p_createdAt upd) (createdAt cur),
     lastModifiedBy = uid,
     lastModifiedAt = now,
     textBoxes = override (p_textBoxes upd) (textBoxes cur),
     drawings = override (p_drawings upd) (drawings cur),
     canvasData = override (p_canvasData upd) (canvasData cur),
     textContent = override (p_textContent upd) (textContent cur),
     textDirection = override (p_textDirection upd) (textDirection cur) \<rparr>"

section \<open>The local database (utils/db.ts)\<close>

text \<open>
  What a transaction can reject with: \<^verbatim>\<open>new Error('Could not open database')\<close> from
  \<^verbatim>\<open>initDB\<close>, or the request's or transaction's own error. \<open>TypeError\<close> is what reading a
  property of \<^verbatim>\<open>undefined\<close> throws.
\<close>

datatype err = CouldNotOpenDatabase | RequestError string | TypeError

text \<open>
  The three object stores created by \<^verbatim>\<open>onupgradeneeded\<close>. \<open>notes\<close> has
  \<^verbatim>\<open>keyPath: 'id', autoIncrement: true\<close>: its records are kept in ascending key order
  together with the key generator. \<open>users\<close> and \<open>stats\<close> are keyed by their \<^verbatim>\<open>id\<close>.
  \<open>pending\<close> scripts the outcome of the transactions still to come: \<open>Some e\<close> makes the
  next transaction reject with \<open>e\<close>; \<open>None\<close>, or an exhausted script, lets it succeed.
\<close>

record env =
  notes_store :: "(nat \<times> Note) list"
  key_generator :: nat
  users_store :: "string \<rightharpoonup> User"
  stats_store :: "string \<rightharpoonup> Stats"
  pending :: "err option list"

fun next_outcome :: "err option list \<Rightarrow> err option" where
  "next_outcome [] = None"
| "next_outcome (f # fs) = f"

text \<open>
  \<^verbatim>\<open>transaction(storeName, mode, callback)\<close>: one request on one store. A rejected
  transaction leaves the stores as they were.
\<close>

definition transaction :: "(env \<Rightarrow> 'a \<times> env) \<Rightarrow> env \<Rightarrow> (err + 'a) \<times> env" where
  "transaction request e =
     (case next_outcome (pending e) of
        Some x \<Rightarrow> (Inl x, e\<lparr>pending := tl (pending e)\<rparr>)
      | None \<Rightarrow> (case request (e\<lparr>pending := tl (pending e)\<rparr>) of (r, e') \<Rightarrow> (Inr r, e')))"

text \<open>\<^verbatim>\<open>store.put\<close> at a key of the ordered \<open>notes\<close> store: replace or insert in key order.\<close>

fun put_at :: "nat \<Rightarrow> Note \<Rightarrow> (nat \<times> Note) list \<Rightarrow> (nat \<times> Note) list" where
  "put_at k v [] = [(k, v)]"
| "put_at k v (kv # rest) =
     (if fst kv = k then (k, v) # rest
      else if k < fst kv then (k, v) # kv # rest
      else kv # put_at k v rest)"

text \<open>
  \<^verbatim>\<open>store.put(note)\<close> on the auto-increment store: a record without \<^verbatim>\<open>id\<close> gets the next
  generated key, which is also written into the stored record at the key path; a record
  with an \<^verbatim>\<open>id\<close> is stored under it and the generator moves past it. The request's
  result is the key.
\<close>

definition put_note :: "Note \<Rightarrow> env \<Rightarrow> nat \<times> env" where
  "put_note n e =
     (case note_id n of
        None \<Rightarrow> (key_generator e,
                  e\<lparr>notes_store := put_at (key_generator e) (n\<lparr>note_id := Some (key_generator e)\<rparr>) (notes_store e),
                    key_generator := key_generator e + 1\<rparr>)
      | Some k \<Rightarrow> (k, e\<lparr>notes_store := put_at k n (notes_store e),
                         key_generator := max (key_generator e) (k + 1)\<rparr>))"

definition saveNote :: "Note \<Rightarrow> env \<Rightarrow> (err + nat) \<times> env" where
  "saveNote n = transaction (put_note n)"

definition getNotes :: "env \<Rightarrow> (err + Note list) \<times> env" where
  "getNotes = transaction (\<lambda>e. (map snd (notes_store e), e))"

text \<open>\<^verbatim>\<open>store.get(id)\<close> succeeds with \<^verbatim>\<open>undefined\<close> when no record has the key.\<close>

definition of_option :: "'a option \<Rightarrow> 'a js" where
  "of_option r = (case r of None \<Rightarrow> Undefined | Some v \<Rightarrow> Val v)"

definition getNote :: "nat \<Rightarrow> env \<Rightarrow> (err + Note js) \<times> env" where
  "getNote k = transaction (\<lambda>e. (of_option (map_of (notes_store e) k), e))"

definition saveUser :: "User \<Rightarrow> env \<Rightarrow> (err + string) \<times> env" where
  "saveUser u = transaction (\<lambda>e. (user_id u, e\<lparr>users_store := (users_store e)(user_id u \<mapsto> u)\<rparr>))"

definition getUser :: "string \<Rightarrow> env \<Rightarrow> (err + User js) \<times> env" where
  "getUser k = transaction (\<lambda>e. (of_option (users_store e k), e))"

definition getStats :: "env \<Rightarrow> (err + Stats js) \<times> env" where
  "getStats = transaction (\<lambda>e. (of_option (stats_store e ''global''), e))"

definition put_stats :: "Stats \<Rightarrow> env \<Rightarrow> (err + string) \<times> env" where
  "put_stats s = transaction (\<lambda>e. (stats_id s, e\<lparr>stats_store := (stats_store e)(stats_id s \<mapsto> s)\<rparr>))"

section \<open>The note repository (hooks/useNotes.ts)\<close>

text \<open>
  \<^verbatim>\<open>Array.prototype.sort(compare)\<close> is a stable sort: elements that compare equal keep
  their order. Insertion from the right end, each element going before the first one it
  does not have to follow, computes exactly that arrangement.
\<close>

fun insert_sorted :: "('a \<Rightarrow> 'a \<Rightarrow> int) \<Rightarrow> 'a \<Rightarrow> 'a list \<Rightarrow> 'a list" where
  "insert_sorted cmp a [] = [a]"
| "insert_sorted cmp a (b # bs) =
     (if cmp a b \<le> 0 then a # b # bs else b # insert_sorted cmp a bs)"

definition js_sort :: "('a \<Rightarrow> 'a \<Rightarrow> int) \<Rightarrow> 'a list \<Rightarrow> 'a list" where
  "js_sort cmp xs = foldr (insert_sorted cmp) xs []"

text \<open>\<^verbatim>\<open>(a, b) => b.lastModifiedAt - a.lastModifiedAt\<close>\<close>

definition by_lastModified_desc :: "Note \<Rightarrow> Note \<Rightarrow> int" where
  "by_lastModified_desc a b = lastModifiedAt b - lastModifiedAt a"

text \<open>The decimal text of a number, for the template string \<^verbatim>\<open>`Note ${now}`\<close>.\<close>

fun decimal :: "nat \<Rightarrow> string" where
  "decimal n = (if n < 10 then [char_of (48 + n)]
                else decimal (n div 10) @ [char_of (48 + n mod 10)])"

definition show_int :: "int \<Rightarrow> string" where
  "show_int i = (if i < 0 then CHR ''-'' # decimal (nat (- i)) else decimal (nat i))"

text \<open>The React state of the hook.\<close>

record notes_hook =
  notes_list :: "Note list"
  currentNote :: "Note js"
  isLoading :: bool
  error :: "err option"

definition initial_hook :: notes_hook where
  "initial_hook = \<lparr> notes_list = [], currentNote = Null, isLoading = True, error = None \<rparr>"

text \<open>\<^verbatim>\<open>!currentUserId\<close> for a \<^verbatim>\<open>string | undefined\<close>: undefined and the empty string.\<close>

definition no_user :: "string option \<Rightarrow> bool" where
  "no_user uid = (case uid of None \<Rightarrow> True | Some s \<Rightarrow> s = [])"

definition is_val :: "'a js \<Rightarrow> bool" where
  "is_val v = (case v of Val _ \<Rightarrow> True | _ \<Rightarrow> False)"

definition loadNotes :: "string option \<Rightarrow> env \<times> notes_hook \<Rightarrow> env \<times> notes_hook" where
  "loadNotes currentUserId s =
     (case s of (e, h) \<Rightarrow>
        if no_user currentUserId then (e, h)
        else (case getNotes e of
                (Inl x, e1) \<Rightarrow> (e1, h\<lparr>error := Some x, isLoading := False\<rparr>)
              | (Inr allNotes, e1) \<Rightarrow>
                  (let sorted_notes = js_sort by_lastModified_desc allNotes in
                   (e1, h\<lparr>notes_list := sorted_notes,
                          currentNote := (case sorted_notes of
                                            first # _ \<Rightarrow> if is_val (currentNote h) then currentNote h else Val first
                                          | [] \<Rightarrow> currentNote h),
                          isLoading := False\<rparr>))))"

text \<open>
  \<^verbatim>\<open>createNote\<close>. The record read back is the one just written, so \<^verbatim>\<open>getNote\<close> cannot
  resolve with \<^verbatim>\<open>undefined\<close> here (lemma \<open>getNote_after_saveNote\<close>); that branch leaves the
  list alone.
\<close>

definition createNote :: "string option \<Rightarrow> int \<Rightarrow> env \<times> notes_hook \<Rightarrow> Note js \<times> env \<times> notes_hook" where
  "createNote currentUserId now s =
     (case s of (e, h) \<Rightarrow>
        (case currentUserId of
           None \<Rightarrow> (Undefined, e, h)
         | Some uid \<Rightarrow>
             if uid = [] then (Undefined, e, h)
             else (let newNote = \<lparr> note_id = None, title = Some (''Note '' @ show_int now),
                                     createdBy = Some uid, createdAt = Some now,
                                     lastModifiedBy = uid, lastModifiedAt = now,
                                     textBoxes = Some [], drawings = Some [],
                                     canvasData = None, textContent = None, textDirection = None \<rparr>
                   in case saveNote newNote e of
                        (Inl x, e1) \<Rightarrow> (Null, e1, h\<lparr>error := Some x\<rparr>)
                      | (Inr noteId, e1) \<Rightarrow>
                          (case getNote noteId e1 of
                             (Inl x, e2) \<Rightarrow> (Null, e2, h\<lparr>error := Some x\<rparr>)
                           | (Inr (Val savedNote), e2) \<Rightarrow>
                               (Val savedNote, e2,
                                h\<lparr>notes_list := savedNote # notes_list h, currentNote := Val savedNote\<rparr>)
                           | (Inr other, e2) \<Rightarrow> (other, e2, h\<lparr>currentNote := other\<rparr>)))))"

definition loadNote :: "nat \<Rightarrow> env \<times> notes_hook \<Rightarrow> Note js \<times> env \<times> notes_hook" where
  "loadNote noteId s =
     (case s of (e, h) \<Rightarrow>
        (case getNote noteId e of
           (Inl x, e1) \<Rightarrow> (Null, e1, h\<lparr>error := Some x\<rparr>)
         | (Inr n, e1) \<Rightarrow> (n, e1, h\<lparr>currentNote := n\<rparr>)))"

definition saveCurrentNote ::
    "string option \<Rightarrow> int \<Rightarrow> partial_note \<Rightarrow> env \<times> notes_hook \<Rightarrow> Note js \<times> env \<times> notes_hook" where
  "saveCurrentNote currentUserId now updatedNote s =
     (case s of (e, h) \<Rightarrow>
        (case currentNote h of
           Val cur \<Rightarrow>
             (case currentUserId of
                None \<Rightarrow> (Null, e, h)
              | Some uid \<Rightarrow>
                  if uid = [] then (Null, e, h)
                  else (let saved = noteToSave cur updatedNote uid now
                        in case saveNote saved e of
                             (Inl x, e1) \<Rightarrow> (Null, e1, h\<lparr>error := Some x\<rparr>)
                           | (Inr _, e1) \<Rightarrow>
                               (Val saved, e1,
                                h\<lparr>currentNote := Val saved,
                                  notes_list := js_sort by_lastModified_desc
                                             (map (\<lambda>n. if note_id n = note_id saved then saved else n)
                                                  (notes_list h))\<rparr>)))
         | _ \<Rightarrow> (Null, e, h)))"

text \<open>
  The operations of the repository as data, to run a sequence of them. Each carries what
  the call reads from outside: the acting user and the clock.
\<close>

datatype operation =
    LoadNotes "string option"
  | CreateNote "string option" int
  | LoadNote nat
  | SaveCurrentNote "string option" int partial_note

fun perform :: "operation \<Rightarrow> env \<times> notes_hook \<Rightarrow> env \<times> notes_hook" where
  "perform (LoadNotes uid) s = loadNotes uid s"
| "perform (CreateNote uid now) s = snd (createNote uid now s)"
| "perform (LoadNote k) s = snd (loadNote k s)"
| "perform (SaveCurrentNote uid now upd) s = snd (saveCurrentNote uid now upd s)"

fun run :: "operation list \<Rightarrow> env \<times> notes_hook \<Rightarrow> env \<times> notes_hook" where
  "run [] s = s"
| "run (a # as) s = run as (perform a s)"

text \<open>A freshly provisioned database: empty stores, key generator at 1, no failure scripted.\<close>

definition fresh_env :: env where
  "fresh_env = \<lparr> notes_store = [], key_generator = 1, users_store = Map.empty,
     stats_store = Map.empty, pending = [] \<rparr>"

section \<open>Identity (utils/fingerprint.ts, utils/avatarGenerator.ts, hooks/useUser.ts)\<close>

text \<open>
  The \<^verbatim>\<open>localStorage\<close> slot \<^verbatim>\<open>'sharenote-fingerprint'\<close>. Reading or writing may throw
  (storage disabled, quota exceeded).
\<close>

record local_storage =
  readable :: bool
  writable :: bool
  stored_fingerprint :: "string option"

text \<open>
  \<^verbatim>\<open>generateFingerprint\<close>. \<open>uuid1\<close> and \<open>uuid2\<close> are what the first and the second call of
  \<^verbatim>\<open>uuidv4()\<close> return; the second call happens only in the \<^verbatim>\<open>catch\<close> after a failed write.
\<close>

definition generateFingerprint :: "string \<Rightarrow> string \<Rightarrow> local_storage \<Rightarrow> string \<times> local_storage" where
  "generateFingerprint uuid1 uuid2 ls =
     (if \<not> readable ls then (uuid1, ls)
      else (case stored_fingerprint ls of
              Some f \<Rightarrow> if f \<noteq> [] then (f, ls)
                        else if writable ls then (uuid1, ls\<lparr>stored_fingerprint := Some uuid1\<rparr>)
                        else (uuid2, ls)
            | None \<Rightarrow> if writable ls then (uuid1, ls\<lparr>stored_fingerprint := Some uuid1\<rparr>)
                      else (uuid2, ls)))"

text \<open>
  \<^verbatim>\<open>encodeURIComponent\<close> on the UTF-8 bytes of the seed: letters, digits and
  \<^verbatim>\<open>- _ . ! ~ * ' ( )\<close> stay, every other byte becomes \<^verbatim>\<open>%XX\<close>.
\<close>

definition unreserved :: "char \<Rightarrow> bool" where
  "unreserved c \<longleftrightarrow>
     c \<in> set ''ABCDEFGHIJKLMNOPQRSTUVWXYZabcdefghijklmnopqrstuvwxyz0123456789-_.!~*()'' \<or> c = CHR 0x27"

definition hex_digit :: "nat \<Rightarrow> char" where
  "hex_digit d = ''0123456789ABCDEF'' ! (d mod 16)"

definition percent_encode :: "char \<Rightarrow> string" where
  "percent_encode c =
     (if unreserved c then [c]
      else [CHR ''%'', hex_digit (of_char c div 16), hex_digit (of_char c mod 16)])"

definition encodeURIComponent :: "string \<Rightarrow> string" where
  "encodeURIComponent s = concat (map percent_encode s)"

definition generateAvatar :: "string \<Rightarrow> string" where
  "generateAvatar seed = ''https://api.dicebear.com/7.x/fun-emoji/svg?seed='' @ encodeURIComponent seed"

definition global_stats :: "nat \<Rightarrow> Stats" where
  "global_stats n = \<lparr> stats_id = ''global'', uniqueUsers = n \<rparr>"

text \<open>
  The body of the outer \<^verbatim>\<open>try\<close> of \<^verbatim>\<open>incrementUniqueUsers\<close>. A rejected read is caught by
  the inner \<^verbatim>\<open>try\<close> and replaced by a fresh record; a read that finds nothing gives
  \<^verbatim>\<open>undefined\<close>, and \<^verbatim>\<open>stats.uniqueUsers\<close> then throws.
\<close>

definition incrementUniqueUsers_try :: "env \<Rightarrow> (err + nat) \<times> env" where
  "incrementUniqueUsers_try e =
     (case getStats e of (r, e1) \<Rightarrow>
        (case (case r of Inl x \<Rightarrow> Val (global_stats 0) | Inr v \<Rightarrow> v) of
           Val st \<Rightarrow>
             (let st' = st\<lparr>uniqueUsers := (if uniqueUsers st = 0 then 0 else uniqueUsers st) + 1\<rparr>
              in case put_stats st' e1 of
                   (Inl x, e2) \<Rightarrow> (Inl x, e2)
                 | (Inr _, e2) \<Rightarrow> (Inr (uniqueUsers st'), e2))
         | _ \<Rightarrow> (Inl TypeError, e1)))"

text \<open>\<^verbatim>\<open>incrementUniqueUsers\<close>: the outer \<^verbatim>\<open>catch\<close> turns every exception into the value 0.\<close>

definition incrementUniqueUsers :: "env \<Rightarrow> (err + nat) \<times> env" where
  "incrementUniqueUsers e =
     (case incrementUniqueUsers_try e of
        (Inl x, e') \<Rightarrow> (Inr 0, e')
      | (Inr n, e') \<Rightarrow> (Inr n, e'))"

definition initStats :: "env \<Rightarrow> env" where
  "initStats e =
     (case getStats e of (r, e1) \<Rightarrow>
        if is_val (case r of Inl x \<Rightarrow> Undefined | Inr v \<Rightarrow> v) then e1
        else (case put_stats (global_stats 0) e1 of
                (Inr _, e2) \<Rightarrow> e2
              | (Inl x, e2) \<Rightarrow> snd (put_stats (global_stats 0) e2)))"

record user_hook =
  currentUser :: "User js"
  user_isLoading :: bool
  uniqueUsers_state :: nat
  user_error :: "err option"

definition initial_user_hook :: user_hook where
  "initial_user_hook = \<lparr> currentUser = Null, user_isLoading = True, uniqueUsers_state = 0,
     user_error = None \<rparr>"

text \<open>The tail of \<^verbatim>\<open>initUser\<close>: read the statistics back, publish the user.\<close>

definition show_stats :: "User \<Rightarrow> local_storage \<times> env \<times> user_hook \<Rightarrow> local_storage \<times> env \<times> user_hook" where
  "show_stats u s =
     (case s of (ls, e, h) \<Rightarrow>
        (case getStats e of (r, e1) \<Rightarrow>
           (ls, e1,
            (case r of
               Inr (Val st) \<Rightarrow> if uniqueUsers st \<noteq> 0 then h\<lparr>uniqueUsers_state := uniqueUsers st\<rparr> else h
             | _ \<Rightarrow> h)
            \<lparr>currentUser := Val u, user_isLoading := False\<rparr>)))"

definition initUser ::
    "string \<Rightarrow> string \<Rightarrow> int \<Rightarrow> local_storage \<times> env \<times> user_hook \<Rightarrow> local_storage \<times> env \<times> user_hook" where
  "initUser uuid1 uuid2 now s =
     (case s of (ls, e, h) \<Rightarrow>
        (let h0 = h\<lparr>user_isLoading := True\<rparr>;
             e1 = initStats e
         in case generateFingerprint uuid1 uuid2 ls of (fingerprint, ls1) \<Rightarrow>
              (case getUser fingerprint e1 of
                 (Inr (Val existingUser), e2) \<Rightarrow> show_stats existingUser (ls1, e2, h0)
               | (_, e2) \<Rightarrow>
                   (let newUser = \<lparr> user_id = fingerprint,
                                     avatarUrl = Some (generateAvatar fingerprint),
                                     user_createdAt = now \<rparr>
                    in case saveUser newUser e2 of
                         (Inl x, e3) \<Rightarrow> (ls1, e3, h0\<lparr>user_error := Some x, user_isLoading := False\<rparr>)
                       | (Inr _, e3) \<Rightarrow>
                           (case incrementUniqueUsers e3 of
                              (Inl x, e4) \<Rightarrow> (ls1, e4, h0\<lparr>user_error := Some x, user_isLoading := False\<rparr>)
                            | (Inr _, e4) \<Rightarrow> show_stats newUser (ls1, e4, h0))))))"

section \<open>The save protocol of the canvas (components/Canvas.tsx)\<close>







section \<open>Vocabulary of the properties\<close>

text \<open>The record the \<open>notes\<close> store holds under a key, read without a transaction.\<close>

definition stored_note :: "env \<Rightarrow> nat \<Rightarrow> Note option" where
  "stored_note e k = map_of (notes_store e) k"

definition stored_notes :: "env \<Rightarrow> Note list" where
  "stored_notes e = map snd (notes_store e)"

text \<open>A partial update that carries nothing but text fields, or nothing but canvas data.\<close>

definition text_only :: "partial_note \<Rightarrow> bool" where
  "text_only upd \<longleftrightarrow>
     p_id upd = None \<and> p_title upd = None \<and> p_createdBy upd = None \<and> p_createdAt upd = None \<and>
     p_lastModifiedBy upd = None \<and> p_lastModifiedAt upd = None \<and> p_textBoxes upd = None \<and>
     p_drawings upd = None \<and> p_canvasData upd = None"

definition canvas_only :: "partial_note \<Rightarrow> bool" where
  "canvas_only upd \<longleftrightarrow>
     p_id upd = None \<and> p_title upd = None \<and> p_createdBy upd = None \<and> p_createdAt upd = None \<and>
     p_lastModifiedBy upd = None \<and> p_lastModifiedAt upd = None \<and> p_textBoxes upd = None \<and>
     p_drawings upd = None \<and> p_textContent upd = None \<and> p_textDirection upd = None"

definition sorted_desc :: "Note list \<Rightarrow> bool" where
  "sorted_desc ns = sorted_wrt (\<lambda>a b. lastModifiedAt b \<le> lastModifiedAt a) ns"

text \<open>
  The four stamps of a note. \<open>lastModifiedBy\<close> is the acting user of the last write, a
  non-empty string; \<open>lastModifiedAt\<close> is a number; \<open>createdBy\<close> and \<open>createdAt\<close> must not
  be \<^verbatim>\<open>undefined\<close>.
\<close>

definition has_stamps :: "Note \<Rightarrow> bool" where
  "has_stamps n \<longleftrightarrow> createdBy n \<noteq> None \<and> createdAt n \<noteq> None \<and> lastModifiedBy n \<noteq> []"

text \<open>\<^verbatim>\<open>n.createdAt <= t\<close>, which is false when \<^verbatim>\<open>createdAt\<close> is \<^verbatim>\<open>undefined\<close>.\<close>

definition created_by_time :: "int \<Rightarrow> Note \<Rightarrow> bool" where
  "created_by_time t n = (case createdAt n of None \<Rightarrow> False | Some c \<Rightarrow> c \<le> t)"

definition stamps_ordered :: "Note \<Rightarrow> bool" where
  "stamps_ordered n = created_by_time (lastModifiedAt n) n"

text \<open>
  An update that leaves the creation stamps in place: it carries neither \<^verbatim>\<open>createdBy\<close> nor
  \<^verbatim>\<open>createdAt\<close> as \<^verbatim>\<open>undefined\<close>, and no \<^verbatim>\<open>createdAt\<close> later than the clock reading \<open>now\<close>
  of its call.
\<close>

definition keeps_creation :: "int \<Rightarrow> partial_note \<Rightarrow> bool" where
  "keeps_creation now upd \<longleftrightarrow>
     p_createdBy upd \<noteq> Some None \<and>
     (case p_createdAt upd of None \<Rightarrow> True | Some None \<Rightarrow> False | Some (Some c) \<Rightarrow> c \<le> now)"

text \<open>
  A sequence of operations whose clock readings never go back from \<open>t\<close> on, and whose
  updates leave the creation stamps in place.
\<close>

fun admissible :: "int \<Rightarrow> operation list \<Rightarrow> bool" where
  "admissible t [] = True"
| "admissible t (CreateNote uid now # ops) = (t \<le> now \<and> admissible now ops)"
| "admissible t (SaveCurrentNote uid now upd # ops) =
     (t \<le> now \<and> keeps_creation now upd \<and> admissible now ops)"
| "admissible t (LoadNotes uid # ops) = admissible t ops"
| "admissible t (LoadNote k # ops) = admissible t ops"

text \<open>
  Every stored note has its stamps, in order, and was created by time \<open>t\<close>; so was the
  current note, which has a creator.
\<close>

definition settled_by :: "int \<Rightarrow> env \<times> notes_hook \<Rightarrow> bool" where
  "settled_by t s \<longleftrightarrow>
     list_all has_stamps (stored_notes (fst s)) \<and>
     list_all stamps_ordered (stored_notes (fst s)) \<and>
     list_all (created_by_time t) (stored_notes (fst s)) \<and>
     (case currentNote (snd s) of
        Val n \<Rightarrow> created_by_time t n \<and> createdBy n \<noteq> None
      | _ \<Rightarrow> True)"

text \<open>No transaction still to come is scripted to fail.\<close>

definition fault_free :: "env \<Rightarrow> bool" where
  "fault_free e = list_all (\<lambda>f. f = None) (pending e)"

text \<open>
  What an object store with in-line keys and a key generator guarantees: ascending distinct
  keys, every record carries its key at the key path, and the generator is past every key.
\<close>

definition keyed_by_id :: "nat \<times> Note \<Rightarrow> bool" where
  "keyed_by_id kv \<longleftrightarrow> note_id (snd kv) = Some (fst kv)"

definition wf_notes :: "env \<Rightarrow> bool" where
  "wf_notes e \<longleftrightarrow>
     sorted_wrt (<) (map fst (notes_store e)) \<and> list_all keyed_by_id (notes_store e) \<and>
     list_all (\<lambda>kv. fst kv < key_generator e) (notes_store e)"

definition stats_keyed :: "env \<Rightarrow> bool" where
  "stats_keyed e = (case stats_store e ''global'' of None \<Rightarrow> True | Some st \<Rightarrow> stats_id st = ''global'')"

text \<open>The value of the global counter; a store without the record counts nothing.\<close>

definition counted :: "env \<Rightarrow> nat" where
  "counted e = (case stats_store e ''global'' of None \<Rightarrow> 0 | Some st \<Rightarrow> uniqueUsers st)"

text \<open>The current note, when there is one, is the record stored under its id.\<close>

definition in_sync :: "env \<times> notes_hook \<Rightarrow> bool" where
  "in_sync s =
     (case currentNote (snd s) of
        Val n \<Rightarrow> (case note_id n of Some k \<Rightarrow> stored_note (fst s) k = Some n | None \<Rightarrow> False)
      | _ \<Rightarrow> True)"

text \<open>An update does not set the id to \<^verbatim>\<open>undefined\<close>.\<close>

fun keeps_id :: "operation \<Rightarrow> bool" where
  "keeps_id (SaveCurrentNote uid now upd) = (p_id upd \<noteq> Some None)"
| "keeps_id _ = True"

section \<open>Facts about the database\<close>

lemma transaction_ok:
  "next_outcome (pending e) = None \<Longrightarrow>
   transaction request e = (Inr (fst (request (e\<lparr>pending := tl (pending e)\<rparr>))), snd (request (e\<lparr>pending := tl (pending e)\<rparr>)))"
  by (simp add: transaction_def split: prod.splits)

lemma transaction_rejected:
  "next_outcome (pending e) = Some x \<Longrightarrow> transaction request e = (Inl x, e\<lparr>pending := tl (pending e)\<rparr>)"
  by (simp add: transaction_def)

lemma map_of_put_at: "map_of (put_at k v kvs) = (map_of kvs)(k \<mapsto> v)"
  by (induction kvs) (auto simp: fun_eq_iff)

lemma saveNote_cases:
  "saveNote n e = (r, e') \<Longrightarrow>
     (\<exists>x. r = Inl x \<and> notes_store e' = notes_store e) \<or>
     (\<exists>k. r = Inr k \<and> stored_note e' k = Some (n\<lparr>note_id := Some k\<rparr>) \<and>
          (\<forall>j. j \<noteq> k \<longrightarrow> stored_note e' j = stored_note e j) \<and>
          (case note_id n of Some i \<Rightarrow> k = i | None \<Rightarrow> k = key_generator e) \<and> pending e' = tl (pending e))"
  by (cases "next_outcome (pending e)"; cases "note_id n")
     (auto simp: saveNote_def transaction_def put_note_def stored_note_def map_of_put_at)

lemma getNote_cases:
  "getNote k e = (r, e') \<Longrightarrow>
     notes_store e' = notes_store e \<and> pending e' = tl (pending e) \<and>
     ((\<exists>x. r = Inl x) \<or> r = Inr (of_option (stored_note e k)))"
  by (cases "next_outcome (pending e)")
     (auto simp: getNote_def transaction_def stored_note_def)

text \<open>Evaluating the title of a note created at clock reading 42.\<close>

lemma decimal_42: "show_int 42 = ''42''"
  by code_simp

section \<open>Facts about sorting\<close>

lemma js_sort_sort_key: "js_sort by_lastModified_desc xs = sort_key (\<lambda>n. - lastModifiedAt n) xs"
proof -
  have ins: "insert_sorted by_lastModified_desc a bs = insort_key (\<lambda>n. - lastModifiedAt n) a bs" for a bs
    by (induction bs) (auto simp: by_lastModified_desc_def)
  show ?thesis
    by (induction xs) (simp_all add: js_sort_def ins)
qed

lemma mset_js_sort: "mset (js_sort by_lastModified_desc xs) = mset xs"
  by (simp add: js_sort_sort_key)

lemma set_js_sort: "set (js_sort by_lastModified_desc xs) = set xs"
  by (simp add: js_sort_sort_key)

lemma sorted_desc_js_sort: "sorted_desc (js_sort by_lastModified_desc xs)"
proof -
  have "sorted (map (\<lambda>n. - lastModifiedAt n) (js_sort by_lastModified_desc xs))"
    by (simp add: js_sort_sort_key)
  then show ?thesis
    by (simp add: sorted_desc_def sorted_wrt_map)
qed

section \<open>Facts about single operations\<close>

lemma loadNote_absent:
  "stored_note e k = None \<Longrightarrow> next_outcome (pending e) = None \<Longrightarrow>
   loadNote k (e, h) = (Undefined, e\<lparr>pending := tl (pending e)\<rparr>, h\<lparr>currentNote := Undefined\<rparr>)"
  by (simp add: loadNote_def getNote_def transaction_def of_option_def stored_note_def)

lemma loadNote_present:
  "stored_note e k = Some n \<Longrightarrow> next_outcome (pending e) = None \<Longrightarrow>
   loadNote k (e, h) = (Val n, e\<lparr>pending := tl (pending e)\<rparr>, h\<lparr>currentNote := Val n\<rparr>)"
  by (simp add: loadNote_def getNote_def transaction_def of_option_def stored_note_def)

lemma noteToSave_stamps [simp]:
  "lastModifiedAt (noteToSave cur upd u now) = now" "lastModifiedBy (noteToSave cur upd u now) = u"
  by (simp_all add: noteToSave_def)

lemma saveCurrentNote_stored:
  assumes "currentNote h = Val cur" and "uid = Some u" and "u \<noteq> []"
    and "next_outcome (pending e) = None" and "note_id (noteToSave cur upd u now) = Some k"
  shows "saveCurrentNote uid now upd (e, h) =
           (Val (noteToSave cur upd u now),
            e\<lparr>pending := tl (pending e),
              notes_store := put_at k (noteToSave cur upd u now) (notes_store e),
              key_generator := max (key_generator e) (k + 1)\<rparr>,
            h\<lparr>currentNote := Val (noteToSave cur upd u now),
              notes_list := js_sort by_lastModified_desc
                 (map (\<lambda>n. if note_id n = Some k then noteToSave cur upd u now else n)
                    (notes_list h))\<rparr>)"
  using assms
  by (simp add: saveCurrentNote_def saveNote_def transaction_def put_note_def Let_def)

section \<open>The current note is the stored note\<close>

text \<open>
  A well-formed store stays well-formed, and the current note stays the record stored under
  its id, through every operation of the repository, as long as no update sets the id to
  \<^verbatim>\<open>undefined\<close>. This is the situation the properties of saving are stated in.
\<close>

lemma keys_put_at: "fst ` set (put_at k v kvs) = insert k (fst ` set kvs)"
  by (induction kvs) auto

lemma sorted_keys_put_at:
  "sorted_wrt (<) (map fst kvs) \<Longrightarrow> sorted_wrt (<) (map fst (put_at k v kvs))"
proof (induction kvs)
  case Nil
  then show ?case by simp
next
  case (Cons kv kvs)
  have "\<forall>j \<in> fst ` set (put_at k v kvs). fst kv < j" if "fst kv < k"
    using Cons.prems that by (auto simp: keys_put_at)
  then show ?case
    using Cons by (auto simp: image_iff)
qed

lemma set_put_at: "set (put_at k v kvs) \<subseteq> insert (k, v) (set kvs)"
  by (induction kvs) auto

lemma wf_notes_pending [simp]: "wf_notes (e\<lparr>pending := p\<rparr>) = wf_notes e"
  by (simp add: wf_notes_def)

lemma wf_notes_put_note:
  assumes "wf_notes e"
  shows "wf_notes (snd (put_note n e))"
proof -
  have put: "list_all P (put_at k v (notes_store e))"
    if "P (k, v)" and "\<And>kv. kv \<in> set (notes_store e) \<Longrightarrow> P kv" for P k v
    using that set_put_at [of k v "notes_store e"] by (auto simp: list_all_iff)
  have old: "kv \<in> set (notes_store e) \<Longrightarrow> keyed_by_id kv \<and> fst kv < key_generator e" for kv
    using assms by (simp add: wf_notes_def list_all_iff)
  show ?thesis
  proof (cases "note_id n")
    case None
    have "list_all keyed_by_id (put_at (key_generator e) (n\<lparr>note_id := Some (key_generator e)\<rparr>) (notes_store e))"
      using old by (intro put) (simp_all add: keyed_by_id_def)
    moreover have "list_all (\<lambda>kv. fst kv < key_generator e + 1)
        (put_at (key_generator e) (n\<lparr>note_id := Some (key_generator e)\<rparr>) (notes_store e))"
      using old by (intro put) (simp_all add: less_SucI)
    ultimately show ?thesis
      using assms None by (simp add: wf_notes_def put_note_def sorted_keys_put_at)
  next
    case (Some k)
    have "list_all keyed_by_id (put_at k n (notes_store e))"
      using old Some by (intro put) (simp_all add: keyed_by_id_def)
    moreover have "list_all (\<lambda>kv. fst kv < max (key_generator e) (k + 1)) (put_at k n (notes_store e))"
      using old by (intro put) (simp_all add: less_max_iff_disj)
    ultimately show ?thesis
      using assms Some by (simp add: wf_notes_def put_note_def sorted_keys_put_at)
  qed
qed

lemma wf_notes_lookup: "wf_notes e \<Longrightarrow> stored_note e k = Some n \<Longrightarrow> note_id n = Some k \<and> k < key_generator e"
  by (auto simp: wf_notes_def stored_note_def keyed_by_id_def list_all_iff dest!: map_of_SomeD)

lemma wf_notes_member:
  assumes "wf_notes e" and "n \<in> set (stored_notes e)"
  shows "\<exists>k. note_id n = Some k \<and> stored_note e k = Some n"
proof -
  obtain k where k: "(k, n) \<in> set (notes_store e)"
    using assms(2) by (auto simp: stored_notes_def)
  have "distinct (map fst (notes_store e))"
    using assms(1) by (simp add: wf_notes_def strict_sorted_iff)
  then have "stored_note e k = Some n"
    using k by (simp add: stored_note_def)
  then show ?thesis
    using wf_notes_lookup [OF assms(1)] by blast
qed

lemma wf_notes_saveNote: "wf_notes e \<Longrightarrow> wf_notes (snd (saveNote n e))"
  using wf_notes_put_note [of "e\<lparr>pending := tl (pending e)\<rparr>" n]
  by (cases "next_outcome (pending e)") (simp_all add: saveNote_def transaction_def case_prod_beta)

lemma same_id_update: "note_id n = Some k \<Longrightarrow> n\<lparr>note_id := Some k\<rparr> = n"
proof -
  assume a: "note_id n = Some k"
  have "n\<lparr>note_id := note_id n\<rparr> = n"
    by simp
  then show ?thesis
    unfolding a .
qed

lemma stored_note_pending [simp]: "stored_note (e\<lparr>pending := p\<rparr>) = stored_note e"
  by (simp add: stored_note_def fun_eq_iff)

lemma stored_notes_pending [simp]: "stored_notes (e\<lparr>pending := p\<rparr>) = stored_notes e"
  by (simp add: stored_notes_def)

lemma in_sync_iff:
  "in_sync (e, h) \<longleftrightarrow>
     (\<forall>n. currentNote h = Val n \<longrightarrow> (\<exists>k. note_id n = Some k \<and> stored_note e k = Some n))"
  by (auto simp: in_sync_def split: js.splits option.splits)

lemma stored_put_note:
  "stored_note (snd (put_note n e)) =
     (stored_note e)(fst (put_note n e) \<mapsto> n\<lparr>note_id := Some (fst (put_note n e))\<rparr>)"
  by (cases "note_id n")
     (auto simp: put_note_def stored_note_def map_of_put_at same_id_update)

lemma key_put_note: "note_id n = None \<Longrightarrow> fst (put_note n e) = key_generator e"
  by (simp add: put_note_def)

lemma in_sync_loadNotes:
  assumes "wf_notes (fst s)" and "in_sync s"
  shows "wf_notes (fst (loadNotes uid s)) \<and> in_sync (loadNotes uid s)"
proof -
  obtain e h where s: "s = (e, h)" by (cases s)
  have first: "\<exists>k. note_id n = Some k \<and> stored_note e k = Some n"
    if "js_sort by_lastModified_desc (stored_notes e) = n # ns" for n ns
  proof -
    have "n \<in> set (stored_notes e)"
      by (metis that list.set_intros(1) set_js_sort)
    then show ?thesis
      using wf_notes_member assms(1) s by auto
  qed
  show ?thesis
  proof (cases "next_outcome (pending e)")
    case (Some x)
    then show ?thesis
      using assms
      by (auto simp: s loadNotes_def getNotes_def transaction_def in_sync_iff)
  next
    case None
    then show ?thesis
      using assms first
      by (auto simp: s loadNotes_def getNotes_def transaction_def in_sync_iff Let_def is_val_def
          stored_notes_def [symmetric] split: js.splits list.splits)
  qed
qed

lemma in_sync_loadNote:
  assumes "wf_notes (fst s)" and "in_sync s"
  shows "wf_notes (fst (snd (loadNote k s))) \<and> in_sync (snd (loadNote k s))"
proof -
  obtain e h where s: "s = (e, h)" by (cases s)
  show ?thesis
    using assms wf_notes_lookup [of e k]
    by (cases "next_outcome (pending e)")
       (auto simp: s loadNote_def getNote_def transaction_def in_sync_iff of_option_def
          stored_note_def [symmetric] split: option.splits)
qed

lemma in_sync_createNote:
  assumes "wf_notes (fst s)" and "in_sync s"
  shows "wf_notes (fst (snd (createNote uid now s))) \<and> in_sync (snd (createNote uid now s))"
proof -
  obtain e h where s: "s = (e, h)" by (cases s)
  have wf: "wf_notes e" and sync: "in_sync (e, h)"
    using assms by (simp_all add: s)
  show ?thesis
  proof (cases "no_user uid")
    case True
    then show ?thesis
      using wf sync by (auto simp: s createNote_def no_user_def split: option.splits)
  next
    case False
    then obtain u where u: "uid = Some u" "u \<noteq> []"
      by (cases uid) (auto simp: no_user_def)
    define new where "new = \<lparr> note_id = None, title = Some (''Note '' @ show_int now), createdBy = Some u,
        createdAt = Some now, lastModifiedBy = u, lastModifiedAt = now, textBoxes = Some [], drawings = Some [],
        canvasData = None, textContent = None, textDirection = None \<rparr>"
    have new_id: "note_id new = None"
      by (simp add: new_def)
    define e0 where "e0 = e\<lparr>pending := tl (pending e)\<rparr>"
    define e1 where "e1 = snd (put_note new e0)"
    have wf1: "wf_notes e1"
      using wf by (simp add: e1_def e0_def wf_notes_put_note)
    have st1: "stored_note e1 = (stored_note e)(key_generator e \<mapsto> new\<lparr>note_id := Some (key_generator e)\<rparr>)"
      by (simp add: e1_def stored_put_note key_put_note [OF new_id] e0_def)
    have old: "currentNote h = Val n \<Longrightarrow> \<exists>k. note_id n = Some k \<and> stored_note e1 k = Some n" for n
      using sync wf_notes_lookup [OF wf] by (fastforce simp: in_sync_iff st1)
    have c: "createNote uid now (e, h) =
        (case saveNote new e of
           (Inl x, e1) \<Rightarrow> (Null, e1, h\<lparr>error := Some x\<rparr>)
         | (Inr noteId, e1) \<Rightarrow>
             (case getNote noteId e1 of
                (Inl x, e2) \<Rightarrow> (Null, e2, h\<lparr>error := Some x\<rparr>)
              | (Inr (Val savedNote), e2) \<Rightarrow>
                  (Val savedNote, e2, h\<lparr>notes_list := savedNote # notes_list h, currentNote := Val savedNote\<rparr>)
              | (Inr other, e2) \<Rightarrow> (other, e2, h\<lparr>currentNote := other\<rparr>)))"
      unfolding createNote_def new_def by (simp add: u)
    show ?thesis
    proof (cases "next_outcome (pending e)")
      case (Some x)
      then show ?thesis
        using wf sync by (simp add: s c saveNote_def transaction_def in_sync_iff)
    next
      case None
      have "key_generator e0 = key_generator e"
        by (simp add: e0_def)
      with None have sv: "saveNote new e = (Inr (key_generator e), e1)"
        by (simp add: saveNote_def transaction_def e1_def e0_def [symmetric] case_prod_beta
              key_put_note [OF new_id])
      show ?thesis
      proof (cases "next_outcome (pending e1)")
        case (Some x)
        then show ?thesis
          using wf1 old by (auto simp: s c sv getNote_def transaction_def in_sync_iff)
      next
        case none: None
        then show ?thesis
          using wf1
          by (auto simp: s c sv getNote_def transaction_def in_sync_iff of_option_def
              stored_note_def [symmetric] st1)
      qed
    qed
  qed
qed

lemma in_sync_saveCurrentNote:
  assumes "wf_notes (fst s)" and "in_sync s" and "p_id upd \<noteq> Some None"
  shows "wf_notes (fst (snd (saveCurrentNote uid now upd s))) \<and>
         in_sync (snd (saveCurrentNote uid now upd s))"
proof -
  obtain e h where s: "s = (e, h)" by (cases s)
  have wf: "wf_notes e" and sync: "in_sync (e, h)"
    using assms by (simp_all add: s)
  show ?thesis
  proof (cases "\<exists>cur u. currentNote h = Val cur \<and> uid = Some u \<and> u \<noteq> []")
    case False
    then show ?thesis
      using wf sync by (auto simp: s saveCurrentNote_def split: js.splits option.splits)
  next
    case True
    then obtain cur u where c: "currentNote h = Val cur" "uid = Some u" "u \<noteq> []"
      by blast
    define n where "n = noteToSave cur upd u now"
    obtain k0 where k0: "note_id cur = Some k0"
      using sync c(1) by (auto simp: in_sync_iff)
    obtain k where k: "note_id n = Some k"
      using assms(3) k0 by (cases "p_id upd") (auto simp: n_def noteToSave_def override_def)
    define e0 where "e0 = e\<lparr>pending := tl (pending e)\<rparr>"
    define e1 where "e1 = snd (put_note n e0)"
    have wf1: "wf_notes e1"
      using wf by (simp add: e1_def e0_def wf_notes_put_note)
    have "fst (put_note n e0) = k"
      using k by (simp add: put_note_def)
    then have st1: "stored_note e1 k = Some n"
      using k by (simp add: e1_def stored_put_note same_id_update)
    have sc: "saveCurrentNote uid now upd (e, h) =
        (case saveNote n e of
           (Inl x, e1) \<Rightarrow> (Null, e1, h\<lparr>error := Some x\<rparr>)
         | (Inr _, e1) \<Rightarrow>
             (Val n, e1,
              h\<lparr>currentNote := Val n,
                notes_list := js_sort by_lastModified_desc
                  (map (\<lambda>m. if note_id m = note_id n then n else m) (notes_list h))\<rparr>))"
      unfolding saveCurrentNote_def n_def by (simp add: c Let_def)
    show ?thesis
    proof (cases "next_outcome (pending e)")
      case (Some x)
      then show ?thesis
        using wf sync by (simp add: s sc saveNote_def transaction_def in_sync_iff)
    next
      case None
      then have "saveNote n e = (Inr (fst (put_note n e0)), e1)"
        by (simp add: saveNote_def transaction_def e1_def e0_def [symmetric] case_prod_beta)
      then show ?thesis
        using wf1 st1 k by (simp add: s sc in_sync_iff)
    qed
  qed
qed

lemma in_sync_run:
  "wf_notes (fst s) \<Longrightarrow> in_sync s \<Longrightarrow> list_all keeps_id ops \<Longrightarrow>
   wf_notes (fst (run ops s)) \<and> in_sync (run ops s)"
proof (induction ops arbitrary: s)
  case Nil
  then show ?case by simp
next
  case (Cons a ops)
  have "wf_notes (fst (perform a s)) \<and> in_sync (perform a s)"
    using Cons.prems
    by (cases a) (simp_all add: in_sync_loadNotes in_sync_createNote in_sync_loadNote in_sync_saveCurrentNote)
  then show ?case
    using Cons by simp
qed

lemma getNote_after_saveNote:
  "saveNote n e = (Inr k, e1) \<Longrightarrow> getNote k e1 = (Inr r, e2) \<Longrightarrow> \<exists>v. r = Val v"
  using saveNote_cases [of n e "Inr k" e1] getNote_cases [of k e1 "Inr r" e2]
  by (auto simp: of_option_def)

lemma initial_state_in_sync: "wf_notes fresh_env \<and> in_sync (fresh_env, initial_hook)"
  by (simp add: wf_notes_def fresh_env_def in_sync_def initial_hook_def)

section \<open>Saving merges, it does not clobber\<close>

text \<open>
  C1. Let the current note be the record stored under its id (as it is in every state the
  repository reaches, lemma \<open>in_sync_run\<close>), and let a save succeed. When
  the partial update carries only text fields, the stored record keeps the canvas data it
  had and takes the text fields of the update; when it carries only canvas data, the stored
  record keeps its text content and text direction. The record returned, the new current
  note and the stored record are the same.
\<close>

theorem save_keeps_untouched_fields:
  assumes "currentNote h = Val cur" and "note_id cur = Some k" and "stored_note e k = Some cur"
    and "\<not> no_user uid" and "next_outcome (pending e) = None"
    and "text_only upd \<or> canvas_only upd"
    and "saveCurrentNote uid now upd (e, h) = (r, e', h')"
  shows "\<exists>n. stored_note e' k = Some n \<and> r = Val n \<and> currentNote h' = Val n \<and>
           (text_only upd \<longrightarrow> canvasData n = canvasData cur \<and>
                textContent n = override (p_textContent upd) (textContent cur) \<and>
                textDirection n = override (p_textDirection upd) (textDirection cur)) \<and>
           (canvas_only upd \<longrightarrow> textContent n = textContent cur \<and> textDirection n = textDirection cur \<and>
                canvasData n = override (p_canvasData upd) (canvasData cur))"
proof -
  obtain u where u: "uid = Some u" "u \<noteq> []"
    using assms(4) by (cases uid) (auto simp: no_user_def)
  have "p_id upd = None"
    using assms(6) by (auto simp: text_only_def canvas_only_def)
  then have k: "note_id (noteToSave cur upd u now) = Some k"
    using assms(2) by (simp add: noteToSave_def override_def)
  show ?thesis
    using assms(7) unfolding saveCurrentNote_stored [OF assms(1) u assms(5) k]
    by (auto simp: stored_note_def map_of_put_at noteToSave_def override_def text_only_def canvas_only_def)
qed

theorem save_keeps_untouched_fields_witness:
  "map canvasData (stored_notes (fst (run
      [CreateNote (Some ''u1'') 10,
       SaveCurrentNote (Some ''u1'') 20 (no_update\<lparr>p_canvasData := Some (Some [CanvasPath [(0, 0), (3, 4)] ''#000000'' 4])\<rparr>),
       SaveCurrentNote (Some ''u1'') 30 (no_update\<lparr>p_textContent := Some (Some ''x''), p_textDirection := Some (Some Ltr)\<rparr>)]
      (fresh_env, initial_hook)))) = [Some [CanvasPath [(0, 0), (3, 4)] ''#000000'' 4]] \<and>
   map textContent (stored_notes (fst (run
      [CreateNote (Some ''u1'') 10,
       SaveCurrentNote (Some ''u1'') 20 (no_update\<lparr>p_canvasData := Some (Some [CanvasPath [(0, 0), (3, 4)] ''#000000'' 4])\<rparr>),
       SaveCurrentNote (Some ''u1'') 30 (no_update\<lparr>p_textContent := Some (Some ''x''), p_textDirection := Some (Some Ltr)\<rparr>)]
      (fresh_env, initial_hook)))) = [Some ''x'']"
  using save_keeps_untouched_fields [of
      "snd (run [CreateNote (Some ''u1'') 10,
       SaveCurrentNote (Some ''u1'') 20 (no_update\<lparr>p_canvasData := Some (Some [CanvasPath [(0, 0), (3, 4)] ''#000000'' 4])\<rparr>)]
         (fresh_env, initial_hook))" _ 1
      "fst (run [CreateNote (Some ''u1'') 10,
       SaveCurrentNote (Some ''u1'') 20 (no_update\<lparr>p_canvasData := Some (Some [CanvasPath [(0, 0), (3, 4)] ''#000000'' 4])\<rparr>)]
         (fresh_env, initial_hook))" "Some ''u1''"
      "no_update\<lparr>p_textContent := Some (Some ''x''), p_textDirection := Some (Some Ltr)\<rparr>" 30]
  by (simp add: createNote_def saveCurrentNote_def saveNote_def getNote_def transaction_def put_note_def
        of_option_def fresh_env_def initial_hook_def no_update_def noteToSave_def override_def
        stored_notes_def js_sort_def by_lastModified_desc_def Let_def)

section \<open>Loading a note\<close>

text \<open>
  C2. Loading an id that the store does not hold: \<^verbatim>\<open>store.get\<close> succeeds with
  \<^verbatim>\<open>undefined\<close>, so \<^verbatim>\<open>loadNote\<close> raises nothing. After one note was created (it got
  id 1), loading id 7 returns \<^verbatim>\<open>undefined\<close>, records no error, and replaces the current note
  by \<^verbatim>\<open>undefined\<close>.
\<close>

theorem loadNote_missing_id:
  "loadNote 7 (snd (createNote (Some ''u1'') 42 (fresh_env, initial_hook))) =
     (Undefined,
      \<lparr> notes_store = [(1, \<lparr> note_id = Some 1, title = Some ''Note 42'', createdBy = Some ''u1'', createdAt = Some 42,
           lastModifiedBy = ''u1'', lastModifiedAt = 42, textBoxes = Some [], drawings = Some [],
           canvasData = None, textContent = None, textDirection = None \<rparr>)],
        key_generator = 2, users_store = Map.empty, stats_store = Map.empty, pending = [] \<rparr>,
      \<lparr> notes_list = [\<lparr> note_id = Some 1, title = Some ''Note 42'', createdBy = Some ''u1'', createdAt = Some 42,
           lastModifiedBy = ''u1'', lastModifiedAt = 42, textBoxes = Some [], drawings = Some [],
           canvasData = None, textContent = None, textDirection = None \<rparr>],
        currentNote = Undefined, isLoading = True, error = None \<rparr>)"
  by (simp add: loadNote_def createNote_def saveNote_def getNote_def transaction_def put_note_def
        of_option_def fresh_env_def initial_hook_def decimal_42)

section \<open>Creating a note\<close>

text \<open>
  C5. Whenever \<^verbatim>\<open>createNote\<close> returns a note, that note has an id, under which the store
  holds it; its creation and modification times are both the clock reading of the call, and
  its creator and last modifier are both the acting user. With an acting user and a store
  that serves the write and the read back, \<^verbatim>\<open>createNote\<close> does return a note.
\<close>

theorem createNote_returned:
  "(\<forall>n e' h'. createNote uid now (e, h) = (Val n, e', h') \<longrightarrow>
       (\<exists>k. note_id n = Some k \<and> stored_note e' k = Some n) \<and>
       createdAt n = Some now \<and> lastModifiedAt n = now \<and>
       createdBy n = uid \<and> uid = Some (lastModifiedBy n) \<and> lastModifiedBy n \<noteq> [] \<and>
       currentNote h' = Val n) \<and>
   (\<not> no_user uid \<and> next_outcome (pending e) = None \<and> next_outcome (tl (pending e)) = None \<longrightarrow>
       (\<exists>n. fst (createNote uid now (e, h)) = Val n))"
proof (rule conjI)
  show "\<forall>n e' h'. createNote uid now (e, h) = (Val n, e', h') \<longrightarrow>
       (\<exists>k. note_id n = Some k \<and> stored_note e' k = Some n) \<and>
       createdAt n = Some now \<and> lastModifiedAt n = now \<and>
       createdBy n = uid \<and> uid = Some (lastModifiedBy n) \<and> lastModifiedBy n \<noteq> [] \<and>
       currentNote h' = Val n"
    by (cases uid; cases "next_outcome (pending e)"; cases "next_outcome (tl (pending e))")
       (auto simp: createNote_def saveNote_def getNote_def transaction_def put_note_def
        stored_note_def map_of_put_at of_option_def
        split: if_splits prod.splits sum.splits js.splits option.splits)
next
  show "\<not> no_user uid \<and> next_outcome (pending e) = None \<and> next_outcome (tl (pending e)) = None \<longrightarrow>
       (\<exists>n. fst (createNote uid now (e, h)) = Val n)"
    by (cases uid)
       (auto simp: createNote_def saveNote_def getNote_def transaction_def put_note_def no_user_def
        map_of_put_at of_option_def Let_def)
qed

theorem createNote_returned_witness:
  "fst (createNote (Some ''u1'') 42 (fresh_env, initial_hook)) =
     Val \<lparr> note_id = Some 1, title = Some ''Note 42'', createdBy = Some ''u1'', createdAt = Some 42,
           lastModifiedBy = ''u1'', lastModifiedAt = 42, textBoxes = Some [], drawings = Some [],
           canvasData = None, textContent = None, textDirection = None \<rparr>"
  using createNote_returned [of "Some ''u1''" 42 fresh_env initial_hook]
  by (simp add: createNote_def saveNote_def getNote_def transaction_def put_note_def no_user_def
        of_option_def fresh_env_def initial_hook_def decimal_42)

section \<open>Listing by recency\<close>

text \<open>
  C7. \<^verbatim>\<open>loadNotes\<close> leaves in memory the stored notes, each once, in descending order of
  \<open>lastModifiedAt\<close>. After a successful save the in-memory list is again in descending
  order, as long as before, and every entry with the id of the saved note is the saved note,
  which carries the clock reading of the call.
\<close>

theorem listing_sorted_by_recency:
  "(\<not> no_user uid \<and> next_outcome (pending e) = None \<longrightarrow>
      sorted_desc (notes_list (snd (loadNotes uid (e, h)))) \<and>
      mset (notes_list (snd (loadNotes uid (e, h)))) = mset (stored_notes e)) \<and>
   (\<forall>saved e' h'. saveCurrentNote uid now upd (e, h) = (Val saved, e', h') \<longrightarrow>
      sorted_desc (notes_list h') \<and> lastModifiedAt saved = now \<and>
      length (notes_list h') = length (notes_list h) \<and>
      (\<forall>n \<in> set (notes_list h'). note_id n = note_id saved \<longrightarrow> n = saved) \<and>
      (note_id saved \<in> note_id ` set (notes_list h) \<longrightarrow> saved \<in> set (notes_list h')))"
proof (rule conjI)
  show "\<not> no_user uid \<and> next_outcome (pending e) = None \<longrightarrow>
      sorted_desc (notes_list (snd (loadNotes uid (e, h)))) \<and>
      mset (notes_list (snd (loadNotes uid (e, h)))) = mset (stored_notes e)"
    by (simp add: loadNotes_def getNotes_def transaction_def sorted_desc_js_sort mset_js_sort
          stored_notes_def Let_def)
next
  show "\<forall>saved e' h'. saveCurrentNote uid now upd (e, h) = (Val saved, e', h') \<longrightarrow>
      sorted_desc (notes_list h') \<and> lastModifiedAt saved = now \<and>
      length (notes_list h') = length (notes_list h) \<and>
      (\<forall>n \<in> set (notes_list h'). note_id n = note_id saved \<longrightarrow> n = saved) \<and>
      (note_id saved \<in> note_id ` set (notes_list h) \<longrightarrow> saved \<in> set (notes_list h'))"
  proof (intro allI impI)
    fix saved e' h'
    assume a: "saveCurrentNote uid now upd (e, h) = (Val saved, e', h')"
    then obtain cur u where cur: "currentNote h = Val cur" and u: "uid = Some u"
      and saved: "saved = noteToSave cur upd u now"
      and h': "notes_list h' = js_sort by_lastModified_desc
                 (map (\<lambda>n. if note_id n = note_id saved then saved else n) (notes_list h))"
      by (auto simp: saveCurrentNote_def Let_def split: js.splits option.splits if_splits prod.splits sum.splits)
    have len: "length (js_sort by_lastModified_desc xs) = length xs" for xs
      by (metis mset_js_sort size_mset)
    show "sorted_desc (notes_list h') \<and> lastModifiedAt saved = now \<and>
      length (notes_list h') = length (notes_list h) \<and>
      (\<forall>n \<in> set (notes_list h'). note_id n = note_id saved \<longrightarrow> n = saved) \<and>
      (note_id saved \<in> note_id ` set (notes_list h) \<longrightarrow> saved \<in> set (notes_list h'))"
      unfolding h' by (auto simp: sorted_desc_js_sort set_js_sort len saved noteToSave_def)
  qed
qed

theorem listing_sorted_by_recency_witness:
  "sorted_desc (notes_list (snd (loadNotes (Some ''u1'')
      (run [CreateNote (Some ''u1'') 10, CreateNote (Some ''u1'') 20, LoadNote 1] (fresh_env, initial_hook))))) \<and>
   sorted_desc (notes_list (snd (snd (saveCurrentNote (Some ''u1'') 30 (no_update\<lparr>p_textContent := Some (Some ''x'')\<rparr>)
      (run [CreateNote (Some ''u1'') 10, CreateNote (Some ''u1'') 20, LoadNote 1] (fresh_env, initial_hook)))))) \<and>
   map note_id (notes_list (snd (run [CreateNote (Some ''u1'') 10, CreateNote (Some ''u1'') 20, LoadNote 1]
      (fresh_env, initial_hook)))) = [Some 2, Some 1] \<and>
   map note_id (notes_list (snd (snd (saveCurrentNote (Some ''u1'') 30 (no_update\<lparr>p_textContent := Some (Some ''x'')\<rparr>)
      (run [CreateNote (Some ''u1'') 10, CreateNote (Some ''u1'') 20, LoadNote 1] (fresh_env, initial_hook)))))) = [Some 1, Some 2]"
proof -
  let ?s = "run [CreateNote (Some ''u1'') 10, CreateNote (Some ''u1'') 20, LoadNote 1] (fresh_env, initial_hook)"
  let ?upd = "no_update\<lparr>p_textContent := Some (Some ''x'')\<rparr>"
  let ?r = "saveCurrentNote (Some ''u1'') 30 ?upd ?s"
  note defs = createNote_def saveCurrentNote_def loadNote_def saveNote_def getNote_def
        transaction_def put_note_def no_user_def of_option_def fresh_env_def initial_hook_def
        no_update_def noteToSave_def override_def js_sort_def by_lastModified_desc_def Let_def
  have ok: "\<not> no_user (Some ''u1'') \<and> next_outcome (pending (fst ?s)) = None"
    by (simp add: defs)
  have "\<exists>n. fst ?r = Val n"
    by (simp add: defs)
  then obtain n where "?r = (Val n, fst (snd ?r), snd (snd ?r))"
    by (metis prod.collapse)
  then have saved: "saveCurrentNote (Some ''u1'') 30 ?upd (fst ?s, snd ?s) = (Val n, fst (snd ?r), snd (snd ?r))"
    by simp
  have "sorted_desc (notes_list (snd (loadNotes (Some ''u1'') (fst ?s, snd ?s))))"
    using listing_sorted_by_recency [of "Some ''u1''" "fst ?s" "snd ?s"] ok by blast
  moreover have "sorted_desc (notes_list (snd (snd ?r)))"
    using listing_sorted_by_recency [of "Some ''u1''" "fst ?s" "snd ?s" 30 ?upd] saved by blast
  moreover have "map note_id (notes_list (snd ?s)) = [Some 2, Some 1]"
    by (simp add: defs)
  moreover have "map note_id (notes_list (snd (snd ?r))) = [Some 1, Some 2]"
    by (simp add: defs)
  ultimately show ?thesis
    by simp
qed

section \<open>Saving without a current note\<close>

text \<open>
  C8. With no current note (\<^verbatim>\<open>null\<close> or \<^verbatim>\<open>undefined\<close>), \<^verbatim>\<open>saveCurrentNote\<close> returns
  \<^verbatim>\<open>null\<close> and leaves the database and the state of the hook exactly as they were.
\<close>

theorem save_without_current_note:
  "\<not> is_val (currentNote h) \<Longrightarrow> saveCurrentNote uid now upd (e, h) = (Null, e, h)"
  by (cases "currentNote h") (simp_all add: saveCurrentNote_def is_val_def)

theorem save_without_current_note_witness:
  "\<not> is_val (currentNote initial_hook) \<and>
   saveCurrentNote (Some ''u1'') 42 (no_update\<lparr>p_textContent := Some (Some ''x'')\<rparr>) (fresh_env, initial_hook)
     = (Null, fresh_env, initial_hook)"
  using save_without_current_note [of initial_hook "Some ''u1''" 42 "no_update\<lparr>p_textContent := Some (Some ''x'')\<rparr>" fresh_env]
  by (simp add: initial_hook_def is_val_def)

section \<open>The modification stamp is the clock reading\<close>

text \<open>
  C3, as the code has it. Two successive successful saves on the same note (the update
  carries no id, or the id of the note, as the spread of the current note does) store,
  each, the clock reading of its own call as \<open>lastModifiedAt\<close>. So the second stamp exceeds the
  first exactly when the second clock reading exceeds the first, and is at least the first
  exactly when the clock did not go back.
\<close>

theorem save_stamp_is_clock_reading:
  assumes "currentNote h = Val cur" and "note_id cur = Some k"
    and "\<not> no_user uid1" and "\<not> no_user uid2"
    and "p_id upd1 = None \<or> p_id upd1 = Some (Some k)"
    and "p_id upd2 = None \<or> p_id upd2 = Some (Some k)"
    and "next_outcome (pending e) = None" and "next_outcome (tl (pending e)) = None"
    and "saveCurrentNote uid1 t1 upd1 (e, h) = (r1, e1, h1)"
    and "saveCurrentNote uid2 t2 upd2 (e1, h1) = (r2, e2, h2)"
  shows "\<exists>n1 n2. stored_note e1 k = Some n1 \<and> stored_note e2 k = Some n2 \<and>
           lastModifiedAt n1 = t1 \<and> lastModifiedAt n2 = t2 \<and>
           (lastModifiedAt n1 < lastModifiedAt n2 \<longleftrightarrow> t1 < t2) \<and>
           (t1 \<le> t2 \<longleftrightarrow> lastModifiedAt n1 \<le> lastModifiedAt n2)"
proof -
  obtain u1 where u1: "uid1 = Some u1" "u1 \<noteq> []"
    using assms(3) by (cases uid1) (auto simp: no_user_def)
  obtain u2 where u2: "uid2 = Some u2" "u2 \<noteq> []"
    using assms(4) by (cases uid2) (auto simp: no_user_def)
  let ?n1 = "noteToSave cur upd1 u1 t1"
  let ?n2 = "noteToSave ?n1 upd2 u2 t2"
  have k1: "note_id (noteToSave cur upd1 u1 t1) = Some k"
    using assms(2,5) by (auto simp: noteToSave_def override_def)
  have first: "e1 = e\<lparr>pending := tl (pending e), notes_store := put_at k ?n1 (notes_store e),
                      key_generator := max (key_generator e) (k + 1)\<rparr>"
      "currentNote h1 = Val ?n1"
    using assms(9) unfolding saveCurrentNote_stored [OF assms(1) u1 assms(7) k1] by auto
  have k2: "note_id (noteToSave ?n1 upd2 u2 t2) = Some k"
    using assms(2,5,6) by (auto simp: noteToSave_def override_def)
  have p1: "next_outcome (pending e1) = None"
    using assms(8) first(1) by simp
  have second: "e2 = e1\<lparr>pending := tl (pending e1), notes_store := put_at k ?n2 (notes_store e1),
                      key_generator := max (key_generator e1) (k + 1)\<rparr>"
    using assms(10) unfolding saveCurrentNote_stored [OF first(2) u2 p1 k2] by auto
  have "stored_note e1 k = Some ?n1"
    by (simp add: first(1) stored_note_def map_of_put_at)
  moreover have "stored_note e2 k = Some ?n2"
    by (simp add: second stored_note_def map_of_put_at)
  ultimately show ?thesis
    by simp
qed

theorem save_stamp_is_clock_reading_witness:
  "\<exists>n1 n2.
      stored_note (fst (snd (saveCurrentNote (Some ''u1'') 5 (no_update\<lparr>p_textContent := Some (Some ''a'')\<rparr>)
          (snd (createNote (Some ''u1'') 1 (fresh_env, initial_hook)))))) 1 = Some n1 \<and>
      stored_note (fst (snd (saveCurrentNote (Some ''u1'') 6 (no_update\<lparr>p_id := Some (Some 1), p_textContent := Some (Some ''b'')\<rparr>)
          (snd (saveCurrentNote (Some ''u1'') 5 (no_update\<lparr>p_textContent := Some (Some ''a'')\<rparr>)
             (snd (createNote (Some ''u1'') 1 (fresh_env, initial_hook)))))))) 1 = Some n2 \<and>
      lastModifiedAt n1 = 5 \<and> lastModifiedAt n2 = 6 \<and> lastModifiedAt n1 < lastModifiedAt n2"
proof -
  let ?s0 = "snd (createNote (Some ''u1'') 1 (fresh_env, initial_hook))"
  let ?a = "no_update\<lparr>p_textContent := Some (Some ''a'')\<rparr>"
  let ?b = "no_update\<lparr>p_id := Some (Some 1), p_textContent := Some (Some ''b'')\<rparr>"
  let ?r1 = "saveCurrentNote (Some ''u1'') 5 ?a ?s0"
  let ?r2 = "saveCurrentNote (Some ''u1'') 6 ?b (snd ?r1)"
  note defs = createNote_def saveNote_def getNote_def transaction_def put_note_def
    of_option_def fresh_env_def initial_hook_def no_update_def no_user_def
  have cur: "currentNote (snd ?s0) =
      Val \<lparr> note_id = Some 1, title = Some (''Note '' @ show_int 1), createdBy = Some ''u1'', createdAt = Some 1,
            lastModifiedBy = ''u1'', lastModifiedAt = 1, textBoxes = Some [], drawings = Some [],
            canvasData = None, textContent = None, textDirection = None \<rparr>"
    by (simp add: defs)
  have p: "next_outcome (pending (fst ?s0)) = None" "next_outcome (tl (pending (fst ?s0))) = None"
    by (simp_all add: defs)
  have r1: "saveCurrentNote (Some ''u1'') 5 ?a (fst ?s0, snd ?s0) = (fst ?r1, fst (snd ?r1), snd (snd ?r1))"
    by simp
  have r2: "saveCurrentNote (Some ''u1'') 6 ?b (fst (snd ?r1), snd (snd ?r1)) = (fst ?r2, fst (snd ?r2), snd (snd ?r2))"
    by simp
  from save_stamp_is_clock_reading [OF cur _ _ _ _ _ p r1 r2, of 1]
  have "\<exists>n1 n2. stored_note (fst (snd ?r1)) 1 = Some n1 \<and> stored_note (fst (snd ?r2)) 1 = Some n2 \<and>
           lastModifiedAt n1 = 5 \<and> lastModifiedAt n2 = 6 \<and>
           (lastModifiedAt n1 < lastModifiedAt n2 \<longleftrightarrow> (5::int) < 6) \<and>
           ((5::int) \<le> 6 \<longleftrightarrow> lastModifiedAt n1 \<le> lastModifiedAt n2)"
    by (simp add: no_update_def no_user_def)
  then show ?thesis
    by auto
qed

text \<open>
  Two saves within the same millisecond: the second changes the text from \<open>a\<close> to \<open>b\<close>,
  and the stored stamp stays 5.
\<close>

theorem equal_stamps_counterexample:
  "map lastModifiedAt (stored_notes (fst (run
      [CreateNote (Some ''u1'') 1,
       SaveCurrentNote (Some ''u1'') 5 (no_update\<lparr>p_textContent := Some (Some ''a'')\<rparr>)]
      (fresh_env, initial_hook)))) = [5] \<and>
   map textContent (stored_notes (fst (run
      [CreateNote (Some ''u1'') 1,
       SaveCurrentNote (Some ''u1'') 5 (no_update\<lparr>p_textContent := Some (Some ''a'')\<rparr>)]
      (fresh_env, initial_hook)))) = [Some ''a''] \<and>
   map lastModifiedAt (stored_notes (fst (run
      [CreateNote (Some ''u1'') 1,
       SaveCurrentNote (Some ''u1'') 5 (no_update\<lparr>p_textContent := Some (Some ''a'')\<rparr>),
       SaveCurrentNote (Some ''u1'') 5 (no_update\<lparr>p_textContent := Some (Some ''b'')\<rparr>)]
      (fresh_env, initial_hook)))) = [5] \<and>
   map textContent (stored_notes (fst (run
      [CreateNote (Some ''u1'') 1,
       SaveCurrentNote (Some ''u1'') 5 (no_update\<lparr>p_textContent := Some (Some ''a'')\<rparr>),
       SaveCurrentNote (Some ''u1'') 5 (no_update\<lparr>p_textContent := Some (Some ''b'')\<rparr>)]
      (fresh_env, initial_hook)))) = [Some ''b''] \<and>
   \<not> list_all2 (<)
      (map lastModifiedAt (stored_notes (fst (run
        [CreateNote (Some ''u1'') 1,
         SaveCurrentNote (Some ''u1'') 5 (no_update\<lparr>p_textContent := Some (Some ''a'')\<rparr>)]
        (fresh_env, initial_hook)))))
      (map lastModifiedAt (stored_notes (fst (run
        [CreateNote (Some ''u1'') 1,
         SaveCurrentNote (Some ''u1'') 5 (no_update\<lparr>p_textContent := Some (Some ''a'')\<rparr>),
         SaveCurrentNote (Some ''u1'') 5 (no_update\<lparr>p_textContent := Some (Some ''b'')\<rparr>)]
        (fresh_env, initial_hook)))))"
  by (simp add: createNote_def saveCurrentNote_def saveNote_def getNote_def transaction_def put_note_def
        of_option_def fresh_env_def initial_hook_def no_update_def noteToSave_def override_def
        stored_notes_def js_sort_def by_lastModified_desc_def Let_def)

section \<open>The stamps of a stored note\<close>

lemma list_all_put_at:
  "list_all P (map snd kvs) \<Longrightarrow> P v \<Longrightarrow> list_all P (map snd (put_at k v kvs))"
  by (induction kvs) auto

lemma saveNote_stored:
  assumes "saveNote n e = (r, e')" and "list_all P (stored_notes e)"
    and "\<And>k. P (n\<lparr>note_id := Some k\<rparr>)"
  shows "list_all P (stored_notes e')"
proof (cases "next_outcome (pending e)")
  case (Some x)
  with assms(1,2) show ?thesis
    by (auto simp: saveNote_def transaction_def stored_notes_def)
next
  case None
  show ?thesis
  proof (cases "note_id n")
    case none: None
    with None assms show ?thesis
      by (auto simp: saveNote_def transaction_def put_note_def stored_notes_def intro!: list_all_put_at)
  next
    case (Some k)
    have "P n"
      using assms(3) [of k] same_id_update [OF Some] by (simp only:)
    with None Some assms(1,2) show ?thesis
      by (auto simp: saveNote_def transaction_def put_note_def stored_notes_def intro!: list_all_put_at)
  qed
qed

lemma getNote_effect:
  "getNote k e = (r, e') \<Longrightarrow>
     notes_store e' = notes_store e \<and> (\<forall>n. r = Inr (Val n) \<longrightarrow> map_of (notes_store e) k = Some n)"
  by (cases "next_outcome (pending e)")
     (auto simp: getNote_def transaction_def of_option_def split: option.splits)

lemma getNotes_effect:
  "getNotes e = (r, e') \<Longrightarrow>
     notes_store e' = notes_store e \<and> (\<forall>ns. r = Inr ns \<longrightarrow> ns = stored_notes e)"
  by (cases "next_outcome (pending e)")
     (auto simp: getNotes_def transaction_def stored_notes_def)

lemma created_by_time_mono: "created_by_time t n \<Longrightarrow> t \<le> t' \<Longrightarrow> created_by_time t' n"
  by (auto simp: created_by_time_def split: option.splits)

lemma settled_by_mono: "settled_by t s \<Longrightarrow> t \<le> t' \<Longrightarrow> settled_by t' s"
  by (auto simp: settled_by_def list_all_iff split: js.splits intro: created_by_time_mono)

lemma stored_note_in_list: "map_of (notes_store e) k = Some n \<Longrightarrow> n \<in> set (stored_notes e)"
  by (auto simp: stored_notes_def dest: map_of_SomeD intro: rev_image_eqI)

lemma settled_member:
  "settled_by t (e, h) \<Longrightarrow> n \<in> set (stored_notes e) \<Longrightarrow> created_by_time t n \<and> createdBy n \<noteq> None"
  by (auto simp: settled_by_def list_all_iff has_stamps_def)

lemma settled_by_loadNotes: "settled_by t s \<Longrightarrow> settled_by t (loadNotes uid s)"
proof -
  assume a: "settled_by t s"
  obtain e h where s: "s = (e, h)" by (cases s)
  obtain r e1 where g: "getNotes e = (r, e1)" by (cases "getNotes e")
  note eff = getNotes_effect [OF g]
  have first: "js_sort by_lastModified_desc (stored_notes e) = n # ns \<Longrightarrow>
      created_by_time t n \<and> createdBy n \<noteq> None" for n ns
    using settled_member [of t e h n] a s by (metis list.set_intros(1) set_js_sort)
  show ?thesis
    using a eff first
    by (auto simp: s g loadNotes_def settled_by_def stored_notes_def Let_def
        split: sum.splits js.splits list.splits)
qed

lemma settled_by_loadNote: "settled_by t s \<Longrightarrow> settled_by t (snd (loadNote k s))"
proof -
  assume a: "settled_by t s"
  obtain e h where s: "s = (e, h)" by (cases s)
  obtain r e1 where g: "getNote k e = (r, e1)" by (cases "getNote k e")
  note eff = getNote_effect [OF g]
  have "r = Inr (Val n) \<Longrightarrow> created_by_time t n \<and> createdBy n \<noteq> None" for n
    using eff stored_note_in_list [of e k n] settled_member [of t e h n] a s by auto
  then show ?thesis
    using a eff
    by (auto simp: s g loadNote_def settled_by_def stored_notes_def split: sum.splits js.splits)
qed

lemma createNote_stored:
  assumes "createNote uid now (e, h) = (r, e', h')"
    and "list_all P (stored_notes e)"
    and "\<And>n. createdAt n = Some now \<Longrightarrow> lastModifiedAt n = now \<Longrightarrow> createdBy n \<noteq> None \<Longrightarrow>
           lastModifiedBy n \<noteq> [] \<Longrightarrow> P n"
  shows "list_all P (stored_notes e')"
  using assms
  by (cases uid; cases "next_outcome (pending e)"; cases "next_outcome (tl (pending e))")
     (auto simp: createNote_def saveNote_def getNote_def transaction_def put_note_def
        map_of_put_at of_option_def stored_notes_def split: if_splits intro!: list_all_put_at)

lemma createNote_current:
  "createNote uid now (e, h) = (r, e', h') \<Longrightarrow>
     currentNote h' = currentNote h \<or>
     (\<exists>n. currentNote h' = Val n \<and> createdAt n = Some now \<and> createdBy n \<noteq> None)"
  by (cases uid; cases "next_outcome (pending e)"; cases "next_outcome (tl (pending e))")
     (auto simp: createNote_def saveNote_def getNote_def transaction_def put_note_def
        map_of_put_at of_option_def split: if_splits)

lemma settled_by_createNote:
  assumes "settled_by t s" and "t \<le> now"
  shows "settled_by now (snd (createNote uid now s))"
proof -
  obtain e h where s: "s = (e, h)" by (cases s)
  obtain r e' h' where c: "createNote uid now (e, h) = (r, e', h')"
    by (cases "createNote uid now (e, h)")
  have base: "settled_by now (e, h)"
    using assms settled_by_mono s by blast
  have "list_all has_stamps (stored_notes e')"
    using base by (intro createNote_stored [OF c]) (simp_all add: settled_by_def has_stamps_def)
  moreover have "list_all stamps_ordered (stored_notes e')"
    using base
    by (intro createNote_stored [OF c]) (simp_all add: settled_by_def stamps_ordered_def created_by_time_def)
  moreover have "list_all (created_by_time now) (stored_notes e')"
    using base by (intro createNote_stored [OF c]) (simp_all add: settled_by_def created_by_time_def)
  moreover have "case currentNote h' of Val n \<Rightarrow> created_by_time now n \<and> createdBy n \<noteq> None | _ \<Rightarrow> True"
    using createNote_current [OF c] base
    by (auto simp: settled_by_def created_by_time_def)
  ultimately show ?thesis
    by (simp add: s c settled_by_def)
qed

lemma settled_by_saveCurrentNote:
  assumes "settled_by t s" and "t \<le> now" and "keeps_creation now upd"
  shows "settled_by now (snd (saveCurrentNote uid now upd s))"
proof -
  obtain e h where s: "s = (e, h)" by (cases s)
  have base: "settled_by now (e, h)"
    using assms settled_by_mono s by blast
  show ?thesis
  proof (cases "\<exists>cur u. currentNote h = Val cur \<and> uid = Some u \<and> u \<noteq> []")
    case False
    then show ?thesis
      using base by (auto simp: s saveCurrentNote_def split: js.splits option.splits)
  next
    case True
    then obtain cur u where c: "currentNote h = Val cur" "uid = Some u" "u \<noteq> []"
      by blast
    define n where "n = noteToSave cur upd u now"
    have cur: "created_by_time now cur" "createdBy cur \<noteq> None"
      using base c(1) by (simp_all add: settled_by_def)
    have c_at: "created_by_time now n"
      using cur(1) assms(3)
      by (auto simp: n_def noteToSave_def override_def keeps_creation_def created_by_time_def
          split: option.splits)
    have c_by: "createdBy n \<noteq> None"
      using cur(2) assms(3)
      by (auto simp: n_def noteToSave_def override_def keeps_creation_def split: option.splits)
    have lm: "lastModifiedAt n = now" "lastModifiedBy n = u"
      by (simp_all add: n_def)
    obtain r1 e1 where p: "saveNote n e = (r1, e1)" by (cases "saveNote n e")
    have "list_all has_stamps (stored_notes e1)"
      using base c_at c_by lm c(3)
      by (intro saveNote_stored [OF p]) (auto simp: settled_by_def has_stamps_def created_by_time_def split: option.splits)
    moreover have "list_all stamps_ordered (stored_notes e1)"
      using base c_at lm
      by (intro saveNote_stored [OF p]) (simp_all add: settled_by_def stamps_ordered_def created_by_time_def)
    moreover have "list_all (created_by_time now) (stored_notes e1)"
      using base c_at
      by (intro saveNote_stored [OF p]) (simp_all add: settled_by_def created_by_time_def)
    ultimately show ?thesis
      using base c_at c_by
      by (cases r1) (simp_all add: s c saveCurrentNote_def n_def [symmetric] p settled_by_def Let_def)
  qed
qed

lemma settled_by_run:
  "settled_by t s \<Longrightarrow> admissible t ops \<Longrightarrow> \<exists>t'. settled_by t' (run ops s)"
proof (induction ops arbitrary: t s)
  case Nil
  then show ?case by auto
next
  case (Cons a ops)
  show ?case
  proof (cases a)
    case (LoadNotes uid)
    with Cons.prems Cons.IH [of t "loadNotes uid s"] show ?thesis
      by (simp add: settled_by_loadNotes)
  next
    case (CreateNote uid now)
    with Cons.prems Cons.IH [of now "snd (createNote uid now s)"] show ?thesis
      by (simp add: settled_by_createNote)
  next
    case (LoadNote k)
    with Cons.prems Cons.IH [of t "snd (loadNote k s)"] show ?thesis
      by (simp add: settled_by_loadNote)
  next
    case (SaveCurrentNote uid now upd)
    with Cons.prems Cons.IH [of now "snd (saveCurrentNote uid now upd s)"] show ?thesis
      by (simp add: settled_by_saveCurrentNote)
  qed
qed

text \<open>
  C4, as the code has it. Start from a state whose stored notes have their four stamps, in
  order (\<open>createdAt \<le> lastModifiedAt\<close>), and were created by time \<open>t\<close>. Run any sequence
  of repository operations whose clock readings never go back and whose updates leave the
  creation stamps in place: no \<^verbatim>\<open>createdBy\<close> or \<^verbatim>\<open>createdAt\<close> carried as \<^verbatim>\<open>undefined\<close>, no
  \<^verbatim>\<open>createdAt\<close> later than the clock of the call. Then every stored note has a creator, a
  creation time, a non-empty last modifier and a modification time, and its creation time
  is not later than its modification time.
\<close>

theorem stamps_kept_after_run:
  assumes "settled_by t s" and "admissible t ops"
  shows "list_all has_stamps (stored_notes (fst (run ops s))) \<and>
         list_all stamps_ordered (stored_notes (fst (run ops s)))"
  using settled_by_run [OF assms] by (auto simp: settled_by_def)

theorem stamps_kept_after_run_witness:
  "list_all has_stamps (stored_notes (fst (run
      [CreateNote (Some ''u1'') 10,
       SaveCurrentNote (Some ''u1'') 20 (no_update\<lparr>p_textContent := Some (Some ''x'')\<rparr>),
       CreateNote (Some ''u1'') 20, LoadNote 1,
       SaveCurrentNote (Some ''u2'') 25
         (no_update\<lparr>p_createdBy := Some (Some ''u1''), p_createdAt := Some (Some 10),
                    p_canvasData := Some (Some [])\<rparr>)]
      (fresh_env, initial_hook)))) \<and>
   list_all stamps_ordered (stored_notes (fst (run
      [CreateNote (Some ''u1'') 10,
       SaveCurrentNote (Some ''u1'') 20 (no_update\<lparr>p_textContent := Some (Some ''x'')\<rparr>),
       CreateNote (Some ''u1'') 20, LoadNote 1,
       SaveCurrentNote (Some ''u2'') 25
         (no_update\<lparr>p_createdBy := Some (Some ''u1''), p_createdAt := Some (Some 10),
                    p_canvasData := Some (Some [])\<rparr>)]
      (fresh_env, initial_hook))))"
proof (rule stamps_kept_after_run [of 0])
  show "settled_by 0 (fresh_env, initial_hook)"
    by (simp add: settled_by_def stored_notes_def fresh_env_def initial_hook_def)
  show "admissible 0
      [CreateNote (Some ''u1'') 10,
       SaveCurrentNote (Some ''u1'') 20 (no_update\<lparr>p_textContent := Some (Some ''x'')\<rparr>),
       CreateNote (Some ''u1'') 20, LoadNote 1,
       SaveCurrentNote (Some ''u2'') 25
         (no_update\<lparr>p_createdBy := Some (Some ''u1''), p_createdAt := Some (Some 10),
                    p_canvasData := Some (Some [])\<rparr>)]"
    by (simp add: no_update_def keeps_creation_def)
qed

text \<open>
  Four saves after a creation at clock reading 10 that break the claim as it was stated:
  an update that sets \<open>createdAt\<close> to 99, saved at clock reading 20; a save at clock reading
  5; an update that carries \<open>createdAt\<close> as \<^verbatim>\<open>undefined\<close>; an update that carries
  \<open>createdBy\<close> as \<^verbatim>\<open>undefined\<close>.
\<close>

theorem stamps_counterexample:
  "map createdAt (stored_notes (fst (run
      [CreateNote (Some ''u1'') 10,
       SaveCurrentNote (Some ''u1'') 20 (no_update\<lparr>p_createdAt := Some (Some 99)\<rparr>)]
      (fresh_env, initial_hook)))) = [Some 99] \<and>
   map lastModifiedAt (stored_notes (fst (run
      [CreateNote (Some ''u1'') 10,
       SaveCurrentNote (Some ''u1'') 20 (no_update\<lparr>p_createdAt := Some (Some 99)\<rparr>)]
      (fresh_env, initial_hook)))) = [20] \<and>
   \<not> list_all stamps_ordered (stored_notes (fst (run
      [CreateNote (Some ''u1'') 10,
       SaveCurrentNote (Some ''u1'') 20 (no_update\<lparr>p_createdAt := Some (Some 99)\<rparr>)]
      (fresh_env, initial_hook)))) \<and>
   \<not> list_all stamps_ordered (stored_notes (fst (run
      [CreateNote (Some ''u1'') 10,
       SaveCurrentNote (Some ''u1'') 5 (no_update\<lparr>p_textContent := Some (Some ''x'')\<rparr>)]
      (fresh_env, initial_hook)))) \<and>
   map createdAt (stored_notes (fst (run
      [CreateNote (Some ''u1'') 10,
       SaveCurrentNote (Some ''u1'') 20 (no_update\<lparr>p_createdAt := Some None\<rparr>)]
      (fresh_env, initial_hook)))) = [None] \<and>
   \<not> list_all has_stamps (stored_notes (fst (run
      [CreateNote (Some ''u1'') 10,
       SaveCurrentNote (Some ''u1'') 20 (no_update\<lparr>p_createdAt := Some None\<rparr>)]
      (fresh_env, initial_hook)))) \<and>
   map createdBy (stored_notes (fst (run
      [CreateNote (Some ''u1'') 10,
       SaveCurrentNote (Some ''u1'') 20 (no_update\<lparr>p_createdBy := Some None\<rparr>)]
      (fresh_env, initial_hook)))) = [None] \<and>
   \<not> list_all has_stamps (stored_notes (fst (run
      [CreateNote (Some ''u1'') 10,
       SaveCurrentNote (Some ''u1'') 20 (no_update\<lparr>p_createdBy := Some None\<rparr>)]
      (fresh_env, initial_hook))))"
  by (simp add: createNote_def saveCurrentNote_def saveNote_def getNote_def transaction_def put_note_def
        of_option_def fresh_env_def initial_hook_def no_update_def noteToSave_def override_def
        stored_notes_def stamps_ordered_def created_by_time_def has_stamps_def
        js_sort_def by_lastModified_desc_def Let_def)

section \<open>The counter of unique users\<close>

lemma getStats_ok:
  "next_outcome (pending e) = None \<Longrightarrow>
   getStats e = (Inr (of_option (stats_store e ''global'')), e\<lparr>pending := tl (pending e)\<rparr>)"
  by (simp add: getStats_def transaction_def)

lemma getStats_rejected:
  "next_outcome (pending e) = Some x \<Longrightarrow> getStats e = (Inl x, e\<lparr>pending := tl (pending e)\<rparr>)"
  by (simp add: getStats_def transaction_def)

lemma put_stats_ok:
  "next_outcome (pending e) = None \<Longrightarrow>
   put_stats st e = (Inr (stats_id st),
     e\<lparr>pending := tl (pending e), stats_store := (stats_store e)(stats_id st \<mapsto> st)\<rparr>)"
  by (simp add: put_stats_def transaction_def)

lemma put_stats_rejected:
  "next_outcome (pending e) = Some x \<Longrightarrow> put_stats st e = (Inl x, e\<lparr>pending := tl (pending e)\<rparr>)"
  by (simp add: put_stats_def transaction_def)

text \<open>
  C10, as the code has it. \<^verbatim>\<open>incrementUniqueUsers\<close> never rejects, whatever the two
  transactions do. If the read finds no record, the field access throws: it resolves with 0
  and writes nothing. If the read finds the record and the write succeeds, it stores the
  count plus one and resolves with it. If the read is rejected, the inner \<^verbatim>\<open>catch\<close> starts
  from a fresh record counting 0: the write stores 1 and the call resolves with 1. If the
  write is rejected, it resolves with 0 and the stored statistics are as before.
\<close>

theorem incrementUniqueUsers_outcomes:
  "(\<exists>n. fst (incrementUniqueUsers e) = Inr n) \<and>
   (next_outcome (pending e) = None \<and> stats_store e ''global'' = None \<longrightarrow>
      incrementUniqueUsers e = (Inr 0, e\<lparr>pending := tl (pending e)\<rparr>)) \<and>
   (\<forall>st. next_outcome (pending e) = None \<and> stats_store e ''global'' = Some st \<and>
         next_outcome (tl (pending e)) = None \<longrightarrow>
      incrementUniqueUsers e =
        (Inr (uniqueUsers st + 1),
         e\<lparr>pending := tl (tl (pending e)),
           stats_store := (stats_store e)(stats_id st \<mapsto> st\<lparr>uniqueUsers := uniqueUsers st + 1\<rparr>)\<rparr>)) \<and>
   (\<forall>x. next_outcome (pending e) = Some x \<and> next_outcome (tl (pending e)) = None \<longrightarrow>
      incrementUniqueUsers e =
        (Inr 1, e\<lparr>pending := tl (tl (pending e)),
                  stats_store := (stats_store e)(''global'' \<mapsto> global_stats 1)\<rparr>)) \<and>
   (\<forall>x. (next_outcome (pending e) \<noteq> None \<or> stats_store e ''global'' \<noteq> None) \<and>
        next_outcome (tl (pending e)) = Some x \<longrightarrow>
      incrementUniqueUsers e = (Inr 0, e\<lparr>pending := tl (tl (pending e))\<rparr>))"
proof (intro conjI)
  show "\<exists>n. fst (incrementUniqueUsers e) = Inr n"
    by (simp add: incrementUniqueUsers_def split: prod.splits sum.splits)
  show "next_outcome (pending e) = None \<and> stats_store e ''global'' = None \<longrightarrow>
      incrementUniqueUsers e = (Inr 0, e\<lparr>pending := tl (pending e)\<rparr>)"
    by (simp add: incrementUniqueUsers_def incrementUniqueUsers_try_def getStats_ok of_option_def)
  show "\<forall>st. next_outcome (pending e) = None \<and> stats_store e ''global'' = Some st \<and>
         next_outcome (tl (pending e)) = None \<longrightarrow>
      incrementUniqueUsers e =
        (Inr (uniqueUsers st + 1),
         e\<lparr>pending := tl (tl (pending e)),
           stats_store := (stats_store e)(stats_id st \<mapsto> st\<lparr>uniqueUsers := uniqueUsers st + 1\<rparr>)\<rparr>)"
    by (simp add: incrementUniqueUsers_def incrementUniqueUsers_try_def getStats_ok put_stats_ok
          of_option_def Let_def)
  show "\<forall>x. next_outcome (pending e) = Some x \<and> next_outcome (tl (pending e)) = None \<longrightarrow>
      incrementUniqueUsers e =
        (Inr 1, e\<lparr>pending := tl (tl (pending e)),
                  stats_store := (stats_store e)(''global'' \<mapsto> global_stats 1)\<rparr>)"
    by (simp add: incrementUniqueUsers_def incrementUniqueUsers_try_def getStats_rejected put_stats_ok
          global_stats_def Let_def)
  show "\<forall>x. (next_outcome (pending e) \<noteq> None \<or> stats_store e ''global'' \<noteq> None) \<and>
        next_outcome (tl (pending e)) = Some x \<longrightarrow>
      incrementUniqueUsers e = (Inr 0, e\<lparr>pending := tl (tl (pending e))\<rparr>)"
    by (cases "next_outcome (pending e)")
       (auto simp: incrementUniqueUsers_def incrementUniqueUsers_try_def getStats_ok getStats_rejected
          put_stats_rejected of_option_def global_stats_def Let_def)
qed

theorem incrementUniqueUsers_outcomes_witness:
  "incrementUniqueUsers (fresh_env\<lparr>stats_store := [''global'' \<mapsto> global_stats 5]\<rparr>) =
     (Inr 6, fresh_env\<lparr>stats_store := [''global'' \<mapsto> global_stats 6]\<rparr>) \<and>
   incrementUniqueUsers fresh_env = (Inr 0, fresh_env) \<and>
   incrementUniqueUsers (fresh_env\<lparr>stats_store := [''global'' \<mapsto> global_stats 5],
       pending := [None, Some (RequestError ''write failed'')]\<rparr>) =
     (Inr 0, fresh_env\<lparr>stats_store := [''global'' \<mapsto> global_stats 5]\<rparr>)"
  using incrementUniqueUsers_outcomes [of "fresh_env\<lparr>stats_store := [''global'' \<mapsto> global_stats 5]\<rparr>"]
    incrementUniqueUsers_outcomes [of fresh_env]
    incrementUniqueUsers_outcomes [of "fresh_env\<lparr>stats_store := [''global'' \<mapsto> global_stats 5],
       pending := [None, Some (RequestError ''write failed'')]\<rparr>"]
  by (simp add: fresh_env_def global_stats_def)

text \<open>
  A failure that does not end in 0: the store counts 5 and the read is rejected. The call
  resolves with 1 and overwrites the stored count with 1.
\<close>

theorem rejected_read_counterexample:
  "fst (incrementUniqueUsers
      (fresh_env\<lparr>stats_store := [''global'' \<mapsto> global_stats 5],
                 pending := [Some (RequestError ''read failed'')]\<rparr>)) = Inr 1 \<and>
   stats_store (snd (incrementUniqueUsers
      (fresh_env\<lparr>stats_store := [''global'' \<mapsto> global_stats 5],
                 pending := [Some (RequestError ''read failed'')]\<rparr>))) ''global'' = Some (global_stats 1)"
  by (simp add: incrementUniqueUsers_def incrementUniqueUsers_try_def getStats_def put_stats_def
        transaction_def global_stats_def fresh_env_def Let_def)

section \<open>Registering a new device\<close>

lemma fault_free_next: "fault_free e \<Longrightarrow> next_outcome (pending e) = None"
  by (cases "pending e") (simp_all add: fault_free_def)

lemma fault_free_tl: "fault_free e \<Longrightarrow> fault_free (e\<lparr>pending := tl (pending e)\<rparr>)"
  by (cases "pending e") (simp_all add: fault_free_def)

lemma fault_free_stats_update [simp]: "fault_free (e\<lparr>stats_store := m\<rparr>) = fault_free e"
  by (simp add: fault_free_def)

lemma fault_free_users_update [simp]: "fault_free (e\<lparr>users_store := m\<rparr>) = fault_free e"
  by (simp add: fault_free_def)

lemma keyed_stats: "stats_id st = ''global'' \<Longrightarrow> st = global_stats (uniqueUsers st)"
  by (simp add: global_stats_def)

lemma initStats_fault_free:
  assumes "fault_free e" and "stats_keyed e"
  shows "fault_free (initStats e) \<and> users_store (initStats e) = users_store e \<and>
         stats_store (initStats e) ''global'' = Some (global_stats (counted e))"
proof (cases "stats_store e ''global''")
  case None
  have 1: "next_outcome (pending e) = None"
    using assms(1) by (rule fault_free_next)
  have ff: "fault_free (e\<lparr>pending := tl (pending e)\<rparr>)"
    using assms(1) by (rule fault_free_tl)
  have 2: "next_outcome (pending (e\<lparr>pending := tl (pending e)\<rparr>)) = None"
    using ff by (rule fault_free_next)
  show ?thesis
    using None fault_free_tl [OF ff]
    by (simp add: initStats_def getStats_ok [OF 1] put_stats_ok [OF 2] of_option_def is_val_def
          counted_def global_stats_def)
next
  case (Some st)
  have 1: "next_outcome (pending e) = None"
    using assms(1) by (rule fault_free_next)
  have "st = global_stats (uniqueUsers st)"
    using assms(2) Some by (simp add: stats_keyed_def keyed_stats)
  then show ?thesis
    using Some fault_free_tl [OF assms(1)]
    by (simp add: initStats_def getStats_ok [OF 1] of_option_def is_val_def counted_def)
qed

lemma incrementUniqueUsers_fault_free:
  assumes "fault_free e" and "stats_store e ''global'' = Some (global_stats n)"
  shows "fst (incrementUniqueUsers e) = Inr (n + 1) \<and> fault_free (snd (incrementUniqueUsers e)) \<and>
         users_store (snd (incrementUniqueUsers e)) = users_store e \<and>
         stats_store (snd (incrementUniqueUsers e)) ''global'' = Some (global_stats (n + 1))"
proof -
  have 1: "next_outcome (pending e) = None"
    using assms(1) by (rule fault_free_next)
  have ff: "fault_free (e\<lparr>pending := tl (pending e)\<rparr>)"
    using assms(1) by (rule fault_free_tl)
  have 2: "next_outcome (pending (e\<lparr>pending := tl (pending e)\<rparr>)) = None"
    using ff by (rule fault_free_next)
  show ?thesis
    using assms(2) fault_free_tl [OF ff]
    by (simp add: incrementUniqueUsers_def incrementUniqueUsers_try_def getStats_ok [OF 1]
          put_stats_ok [OF 2] of_option_def global_stats_def Let_def)
qed

lemma show_stats_fault_free:
  assumes "fault_free e" and "stats_store e ''global'' = Some (global_stats (n + 1))"
  shows "show_stats u (ls, e, h) =
     (ls, e\<lparr>pending := tl (pending e)\<rparr>,
      h\<lparr>uniqueUsers_state := n + 1, currentUser := Val u, user_isLoading := False\<rparr>)"
  using assms(2)
  by (simp add: show_stats_def getStats_ok [OF fault_free_next [OF assms(1)]] of_option_def global_stats_def)

lemma getUser_ok:
  "next_outcome (pending e) = None \<Longrightarrow>
   getUser k e = (Inr (of_option (users_store e k)), e\<lparr>pending := tl (pending e)\<rparr>)"
  by (simp add: getUser_def transaction_def)

lemma saveUser_ok:
  "next_outcome (pending e) = None \<Longrightarrow>
   saveUser u e = (Inr (user_id u),
     e\<lparr>pending := tl (pending e), users_store := (users_store e)(user_id u \<mapsto> u)\<rparr>)"
  by (simp add: saveUser_def transaction_def)

lemma avatar_example: "generateAvatar ''3f2a-01'' = ''https://api.dicebear.com/7.x/fun-emoji/svg?seed=3f2a-01''"
  by (simp add: generateAvatar_def encodeURIComponent_def percent_encode_def unreserved_def)

text \<open>
  C6. Let the fingerprint of the device have no stored user, let every transaction succeed,
  and let the statistics record, if there is one, carry its key. Then \<^verbatim>\<open>initUser\<close> stores
  under the fingerprint a user whose avatar is \<open>generateAvatar\<close> of the fingerprint and
  whose creation time is the clock reading, makes it the current user, and leaves the global
  counter at its former value plus one, which is also the count it publishes. From a
  counter of 0 (or from no record, which \<^verbatim>\<open>initStats\<close> initialises to 0) the counter
  ends at 1.
\<close>

theorem new_device_registered:
  assumes "generateFingerprint uuid1 uuid2 ls = (fp, ls1)"
    and "users_store e fp = None" and "fault_free e" and "stats_keyed e"
    and "initUser uuid1 uuid2 now (ls, e, h) = (ls', e', h')"
  shows "ls' = ls1 \<and>
     users_store e' = (users_store e)(fp \<mapsto>
        \<lparr> user_id = fp, avatarUrl = Some (generateAvatar fp), user_createdAt = now \<rparr>) \<and>
     currentUser h' = Val \<lparr> user_id = fp, avatarUrl = Some (generateAvatar fp), user_createdAt = now \<rparr> \<and>
     stats_store e' ''global'' = Some (global_stats (counted e + 1)) \<and>
     uniqueUsers_state h' = counted e + 1 \<and> user_error h' = user_error h"
proof -
  define u where "u = \<lparr> user_id = fp, avatarUrl = Some (generateAvatar fp), user_createdAt = now \<rparr>"
  define e1 where "e1 = initStats e"
  define e2 where "e2 = e1\<lparr>pending := tl (pending e1)\<rparr>"
  define e3 where "e3 = e2\<lparr>pending := tl (pending e2), users_store := (users_store e2)(fp \<mapsto> u)\<rparr>"
  have i: "fault_free e1" "users_store e1 = users_store e"
      "stats_store e1 ''global'' = Some (global_stats (counted e))"
    using initStats_fault_free [OF assms(3,4)] by (simp_all add: e1_def)
  have g: "getUser fp e1 = (Inr Undefined, e2)"
    using i assms(2) by (simp add: getUser_ok fault_free_next of_option_def e2_def)
  have ff2: "fault_free e2"
    using i(1) by (simp add: fault_free_tl e2_def)
  have s: "saveUser u e2 = (Inr fp, e3)"
    using saveUser_ok [OF fault_free_next [OF ff2], of u] by (simp add: e3_def u_def)
  have ff3: "fault_free e3"
    using fault_free_tl [OF ff2] by (simp add: e3_def)
  have st3: "stats_store e3 ''global'' = Some (global_stats (counted e))"
    using i(3) by (simp add: e3_def e2_def)
  have u3: "users_store e3 = (users_store e)(fp \<mapsto> u)"
    using i(2) by (simp add: e3_def e2_def)
  note inc = incrementUniqueUsers_fault_free [OF ff3 st3]
  obtain r4 e4 where e4: "incrementUniqueUsers e3 = (r4, e4)"
    by (cases "incrementUniqueUsers e3")
  have r4: "r4 = Inr (counted e + 1)" and ff4: "fault_free e4"
    and u4: "users_store e4 = users_store e3"
    and st4: "stats_store e4 ''global'' = Some (global_stats (counted e + 1))"
    using inc e4 by simp_all
  have "initUser uuid1 uuid2 now (ls, e, h) = show_stats u (ls1, e4, h\<lparr>user_isLoading := True\<rparr>)"
    unfolding initUser_def
    by (simp add: assms(1) e1_def [symmetric] g u_def [symmetric] s e4 r4 Let_def)
  then have "(ls', e', h') =
     (ls1, e4\<lparr>pending := tl (pending e4)\<rparr>,
      h\<lparr>user_isLoading := True, uniqueUsers_state := counted e + 1, currentUser := Val u,
        user_isLoading := False\<rparr>)"
    using assms(5) show_stats_fault_free [OF ff4 st4] by simp
  then show ?thesis
    using u4 u3 st4 by (simp add: u_def)
qed

theorem new_device_registered_witness:
  "users_store (fst (snd (initUser ''3f2a-01'' ''9c4e-02'' 1700
       (\<lparr> readable = True, writable = True, stored_fingerprint = None \<rparr>,
        fresh_env\<lparr>stats_store := [''global'' \<mapsto> global_stats 0]\<rparr>, initial_user_hook)))) ''3f2a-01'' =
     Some \<lparr> user_id = ''3f2a-01'',
            avatarUrl = Some ''https://api.dicebear.com/7.x/fun-emoji/svg?seed=3f2a-01'',
            user_createdAt = 1700 \<rparr> \<and>
   stats_store (fst (snd (initUser ''3f2a-01'' ''9c4e-02'' 1700
       (\<lparr> readable = True, writable = True, stored_fingerprint = None \<rparr>,
        fresh_env\<lparr>stats_store := [''global'' \<mapsto> global_stats 0]\<rparr>, initial_user_hook)))) ''global'' =
     Some (global_stats 1) \<and>
   uniqueUsers_state (snd (snd (initUser ''3f2a-01'' ''9c4e-02'' 1700
       (\<lparr> readable = True, writable = True, stored_fingerprint = None \<rparr>,
        fresh_env\<lparr>stats_store := [''global'' \<mapsto> global_stats 0]\<rparr>, initial_user_hook)))) = 1"
proof -
  let ?ls = "\<lparr> readable = True, writable = True, stored_fingerprint = None \<rparr>"
  let ?e = "fresh_env\<lparr>stats_store := [''global'' \<mapsto> global_stats 0]\<rparr>"
  let ?r = "initUser ''3f2a-01'' ''9c4e-02'' 1700 (?ls, ?e, initial_user_hook)"
  have fp: "generateFingerprint ''3f2a-01'' ''9c4e-02'' ?ls =
      (''3f2a-01'', ?ls\<lparr>stored_fingerprint := Some ''3f2a-01''\<rparr>)"
    by (simp add: generateFingerprint_def)
  have new: "users_store ?e ''3f2a-01'' = None"
    by (simp add: fresh_env_def)
  have ff: "fault_free ?e"
    by (simp add: fresh_env_def fault_free_def)
  have keyed: "stats_keyed ?e"
    by (simp add: fresh_env_def stats_keyed_def global_stats_def)
  have run: "initUser ''3f2a-01'' ''9c4e-02'' 1700 (?ls, ?e, initial_user_hook) = (fst ?r, fst (snd ?r), snd (snd ?r))"
    by simp
  have zero: "counted ?e = 0"
    by (simp add: counted_def fresh_env_def global_stats_def)
  show ?thesis
    using new_device_registered [OF fp new ff keyed run]
    by (simp add: zero avatar_example)
qed

section \<open>The save handlers of the canvas\<close>








end
